theory Spec2Isabelle
  imports Complex_Main
begin

section \<open>Data model\<close>

text \<open>
  The program is \<^verbatim>\<open>elasticModulusVisualization.py\<close>. Its arrays are NumPy arrays of
  float64 and int64. Floats are idealised as the reals (no rounding, no NaN), integers as
  the unbounded integers. An array of shape \<open>(6,6)\<close> is the function from its index pair
  to its entry, an array of shape \<open>(3,3,3,3)\<close> the function from its index quadruple;
  every index the source writes is a literal in range, so no IndexError branch exists.
  Arrays whose length is computed (the lattice weights, the connectivity, the nodes) are
  lists, with a last axis of fixed length 3 as a triple.
\<close>

datatype error = TypeError | LinAlgError

type_synonym mat66 = "nat \<times> nat \<Rightarrow> real"

type_synonym tensor3333 = "nat \<times> nat \<times> nat \<times> nat \<Rightarrow> real"

type_synonym vec3 = "real \<times> real \<times> real"

text \<open>
  The keyword arguments of \<^verbatim>\<open>C66fromSymmetry\<close>. The command line makes \<^verbatim>\<open>c11\<close> and
  \<^verbatim>\<open>c12\<close> required floats; each of the other nineteen is a float when its option is
  given and Python's \<^verbatim>\<open>None\<close> otherwise (the parser has no default for them).
\<close>

record elastic_constants =
  c11 :: real
  c12 :: real
  c13 :: "real option"
  c14 :: "real option"
  c15 :: "real option"
  c16 :: "real option"
  c22 :: "real option"
  c23 :: "real option"
  c24 :: "real option"
  c25 :: "real option"
  c26 :: "real option"
  c33 :: "real option"
  c34 :: "real option"
  c35 :: "real option"
  c36 :: "real option"
  c44 :: "real option"
  c45 :: "real option"
  c46 :: "real option"
  c55 :: "real option"
  c56 :: "real option"
  c66 :: "real option"

section \<open>C66fromSymmetry\<close>

definition zeros66 :: mat66 where
  "zeros66 = (\<lambda>_. 0)"

text \<open>\<^verbatim>\<open>symmetry in [...]\<close>: the argument is a string or \<^verbatim>\<open>None\<close>.\<close>

definition symmetry_in :: "string option \<Rightarrow> string list \<Rightarrow> bool" where
  "symmetry_in symmetry names = (case symmetry of None \<Rightarrow> False | Some s \<Rightarrow> s \<in> set names)"

text \<open>\<^verbatim>\<open>c and c > 0.0\<close>: \<^verbatim>\<open>None\<close> and \<^verbatim>\<open>0.0\<close> are falsy.\<close>

definition provided_pos :: "real option \<Rightarrow> bool" where
  "provided_pos c = (case c of None \<Rightarrow> False | Some v \<Rightarrow> v \<noteq> 0 \<and> v > 0)"

text \<open>\<^verbatim>\<open>c if c and c > 0.0 else d\<close>\<close>

definition or_else :: "real option \<Rightarrow> real \<Rightarrow> real" where
  "or_else c d = (case c of None \<Rightarrow> d | Some v \<Rightarrow> if provided_pos c then v else d)"

text \<open>\<^verbatim>\<open>-c if c and c > 0.0 else d\<close>\<close>

definition neg_or_else :: "real option \<Rightarrow> real \<Rightarrow> real" where
  "neg_or_else c d = (case c of None \<Rightarrow> d | Some v \<Rightarrow> if provided_pos c then - v else d)"

text \<open>
  Each \<^verbatim>\<open>if symmetry in [...]:\<close> block of the source is one function on the matrix. In a
  chained assignment \<^verbatim>\<open>C[a] = C[b] = e\<close> Python evaluates \<^verbatim>\<open>e\<close> once, before any
  target is written, and then writes the targets from left to right.
\<close>

definition block_isotropic :: "elastic_constants \<Rightarrow> mat66 \<Rightarrow> mat66" where
  "block_isotropic k C =
    (let C = C((0,0) := c11 k, (1,1) := c11 k, (2,2) := c11 k);
         v = 0.5 * (c11 k - c12 k);
         C = C((3,3) := v, (4,4) := v, (5,5) := v);
         C = C((0,1) := c12 k, (0,2) := c12 k, (1,2) := c12 k,
               (1,0) := c12 k, (2,0) := c12 k, (2,1) := c12 k)
     in C)"

text \<open>
  \<^verbatim>\<open>C[3,3] = C[4,4] = C[5,5] = c44 if c44 > 0.0 else C[3,3]\<close>: this one comparison has
  no \<^verbatim>\<open>c44 and\<close> guard, so \<^verbatim>\<open>None > 0.0\<close> raises TypeError.
\<close>

definition block_cubic :: "elastic_constants \<Rightarrow> mat66 \<Rightarrow> error + mat66" where
  "block_cubic k C =
    (case c44 k of
       None \<Rightarrow> Inl TypeError
     | Some x \<Rightarrow>
         (let v = (if x > 0 then x else C (3,3))
          in Inr (C((3,3) := v, (4,4) := v, (5,5) := v))))"

definition block_tetragonal :: "elastic_constants \<Rightarrow> mat66 \<Rightarrow> mat66" where
  "block_tetragonal k C =
    (let C = C((2,2) := or_else (c33 k) (C (0,0)));
         C = C((5,5) := or_else (c66 k) (C (3,3)));
         v = or_else (c13 k) (C (0,2));
         C = C((0,2) := v, (1,2) := v, (2,0) := v, (2,1) := v);
         C = C((0,5) := or_else (c16 k) 0);
         C = C((5,0) := neg_or_else (c16 k) 0)
     in C)"

definition block_hexagonal :: "elastic_constants \<Rightarrow> mat66 \<Rightarrow> mat66" where
  "block_hexagonal k C = C((5,5) := 0.5 * (c11 k - c12 k))"

definition block_orthorhombic :: "elastic_constants \<Rightarrow> mat66 \<Rightarrow> mat66" where
  "block_orthorhombic k C =
    (let C = C((1,1) := or_else (c22 k) (C (0,0)));
         C = C((2,2) := or_else (c33 k) (C (0,0)));
         C = C((4,4) := or_else (c55 k) (C (3,3)));
         C = C((5,5) := or_else (c66 k) (C (3,3)));
         v = or_else (c23 k) (C (1,2));
         C = C((1,2) := v, (2,1) := v)
     in C)"

definition block_monoclinic :: "elastic_constants \<Rightarrow> mat66 \<Rightarrow> mat66" where
  "block_monoclinic k C =
    (let v = or_else (c26 k) 0; C = C((1,5) := v, (5,1) := v);
         v = or_else (c36 k) 0; C = C((2,5) := v, (5,2) := v);
         v = or_else (c45 k) 0; C = C((3,4) := v, (4,3) := v)
     in C)"

definition block_triclinic :: "elastic_constants \<Rightarrow> mat66 \<Rightarrow> mat66" where
  "block_triclinic k C =
    (let v = or_else (c14 k) 0; C = C((0,3) := v, (3,0) := v);
         v = or_else (c15 k) 0; C = C((0,4) := v, (4,0) := v);
         v = or_else (c24 k) 0; C = C((1,3) := v, (3,1) := v);
         v = or_else (c25 k) 0; C = C((1,4) := v, (4,1) := v);
         v = or_else (c34 k) 0; C = C((2,3) := v, (3,2) := v);
         v = or_else (c35 k) 0; C = C((2,4) := v, (4,2) := v);
         v = or_else (c36 k) 0; C = C((2,5) := v, (5,2) := v);
         v = or_else (c46 k) 0; C = C((3,5) := v, (5,3) := v);
         v = or_else (c56 k) 0; C = C((4,5) := v, (5,4) := v)
     in C)"

definition C66fromSymmetry :: "elastic_constants \<Rightarrow> string option \<Rightarrow> error + mat66" where
  "C66fromSymmetry k symmetry =
    (let C = zeros66;
         C = (if symmetry_in symmetry
                   [''isotropic'', ''cubic'', ''tetragonal'', ''hexagonal'',
                    ''orthorhombic'', ''monoclinic'', ''triclinic'']
              then block_isotropic k C else C)
     in case (if symmetry_in symmetry
                   [''cubic'', ''tetragonal'', ''hexagonal'',
                    ''orthorhombic'', ''monoclinic'', ''triclinic'']
              then block_cubic k C else Inr C) of
          Inl e \<Rightarrow> Inl e
        | Inr C \<Rightarrow>
           (let C = (if symmetry_in symmetry
                          [''tetragonal'', ''hexagonal'', ''orthorhombic'', ''monoclinic'',
                           ''triclinic'']
                     then block_tetragonal k C else C);
                C = (if symmetry_in symmetry
                          [''hexagonal'', ''orthorhombic'', ''monoclinic'', ''triclinic'']
                     then block_hexagonal k C else C);
                C = (if symmetry_in symmetry [''orthorhombic'', ''monoclinic'', ''triclinic'']
                     then block_orthorhombic k C else C);
                C = (if symmetry_in symmetry [''monoclinic'', ''triclinic'']
                     then block_monoclinic k C else C);
                C = (if symmetry_in symmetry [''triclinic'']
                     then block_triclinic k C else C)
            in Inr C))"

text \<open>The seven class names the function recognises.\<close>

definition recognized :: "string list" where
  "recognized = [''isotropic'', ''cubic'', ''tetragonal'', ''hexagonal'',
                 ''orthorhombic'', ''monoclinic'', ''triclinic'']"

definition cubic_up :: "string list" where
  "cubic_up = [''cubic'', ''tetragonal'', ''hexagonal'', ''orthorhombic'', ''monoclinic'',
               ''triclinic'']"

definition tetragonal_up :: "string list" where
  "tetragonal_up = [''tetragonal'', ''hexagonal'', ''orthorhombic'', ''monoclinic'',
                    ''triclinic'']"

definition orthorhombic_up :: "string list" where
  "orthorhombic_up = [''orthorhombic'', ''monoclinic'', ''triclinic'']"

definition monoclinic_up :: "string list" where
  "monoclinic_up = [''monoclinic'', ''triclinic'']"

text \<open>
  The matrix after the first two blocks, when \<open>c44\<close> is the float \<open>x\<close>.
\<close>

definition after_cubic :: "elastic_constants \<Rightarrow> real \<Rightarrow> mat66" where
  "after_cubic k x =
    (block_isotropic k zeros66)
      ((3, 3) := if x > 0 then x else block_isotropic k zeros66 (3, 3),
       (4, 4) := if x > 0 then x else block_isotropic k zeros66 (3, 3),
       (5, 5) := if x > 0 then x else block_isotropic k zeros66 (3, 3))"

text \<open>
  Symmetry of a matrix away from the Voigt pair C16/C61, the entries \<open>(0,5)\<close> and \<open>(5,0)\<close>.
\<close>

definition sym_except_c16 :: "mat66 \<Rightarrow> bool" where
  "sym_except_c16 C =
    (\<forall>i j. \<not> (i = 0 \<and> j = 5 \<or> i = 5 \<and> j = 0) \<longrightarrow> C (i, j) = C (j, i))"

text \<open>
  Two values of one optional constant that the defaulting predicate cannot tell apart:
  equal, or both supplied and not positive.
\<close>

definition same_unless_nonpositive :: "real option \<Rightarrow> real option \<Rightarrow> bool" where
  "same_unless_nonpositive a b =
    (case (a, b) of
       (None, None) \<Rightarrow> True
     | (Some x, Some y) \<Rightarrow> x = y \<or> (x \<le> 0 \<and> y \<le> 0)
     | _ \<Rightarrow> False)"

definition agree_up_to_nonpositive :: "elastic_constants \<Rightarrow> elastic_constants \<Rightarrow> bool" where
  "agree_up_to_nonpositive k k' =
    (c11 k = c11 k' \<and> c12 k = c12 k' \<and>
     same_unless_nonpositive (c13 k) (c13 k') \<and> same_unless_nonpositive (c14 k) (c14 k') \<and>
     same_unless_nonpositive (c15 k) (c15 k') \<and> same_unless_nonpositive (c16 k) (c16 k') \<and>
     same_unless_nonpositive (c22 k) (c22 k') \<and> same_unless_nonpositive (c23 k) (c23 k') \<and>
     same_unless_nonpositive (c24 k) (c24 k') \<and> same_unless_nonpositive (c25 k) (c25 k') \<and>
     same_unless_nonpositive (c26 k) (c26 k') \<and> same_unless_nonpositive (c33 k) (c33 k') \<and>
     same_unless_nonpositive (c34 k) (c34 k') \<and> same_unless_nonpositive (c35 k) (c35 k') \<and>
     same_unless_nonpositive (c36 k) (c36 k') \<and> same_unless_nonpositive (c44 k) (c44 k') \<and>
     same_unless_nonpositive (c45 k) (c45 k') \<and> same_unless_nonpositive (c46 k) (c46 k') \<and>
     same_unless_nonpositive (c55 k) (c55 k') \<and> same_unless_nonpositive (c56 k) (c56 k') \<and>
     same_unless_nonpositive (c66 k) (c66 k'))"

text \<open>
  Constants for the concrete checks: \<^verbatim>\<open>--c11 200 --c12 100\<close> and nothing else given.
\<close>

definition only_c11_c12 :: elastic_constants where
  "only_c11_c12 =
    \<lparr>c11 = 200, c12 = 100, c13 = None, c14 = None, c15 = None, c16 = None,
     c22 = None, c23 = None, c24 = None, c25 = None, c26 = None,
     c33 = None, c34 = None, c35 = None, c36 = None,
     c44 = None, c45 = None, c46 = None, c55 = None, c56 = None, c66 = None\<rparr>"

section \<open>C66toC3333\<close>

text \<open>\<^verbatim>\<open>index = np.array([[0,0],[1,1],[2,2],[1,2],[0,2],[0,1]])\<close>\<close>

definition voigt_index :: "(nat \<times> nat) list" where
  "voigt_index = [(0, 0), (1, 1), (2, 2), (1, 2), (0, 2), (0, 1)]"

definition zeros3333 :: tensor3333 where
  "zeros3333 = (\<lambda>_. 0)"

text \<open>
  The two nested \<^verbatim>\<open>for\<close> loops over \<^verbatim>\<open>range(6)\<close>; the body is one chained assignment
  of \<^verbatim>\<open>stiffness[a,b]\<close> to four entries, written from left to right.
\<close>

definition C66toC3333 :: "mat66 \<Rightarrow> tensor3333" where
  "C66toC3333 stiffness =
    fold (\<lambda>a C3333.
            case voigt_index ! a of (i, j) \<Rightarrow>
              fold (\<lambda>b C3333.
                      case voigt_index ! b of (k, l) \<Rightarrow>
                        (let v = stiffness (a, b)
                         in C3333((i, j, k, l) := v, (i, j, l, k) := v,
                                  (j, i, k, l) := v, (j, i, l, k) := v)))
                   [0..<6] C3333)
         [0..<6] zeros3333"

text \<open>
  The Voigt row of an index pair of the rank-4 tensor: the position of the unordered pair
  in \<open>voigt_index\<close>.
\<close>

definition voigt_row :: "nat \<Rightarrow> nat \<Rightarrow> nat" where
  "voigt_row i j = (if i = j then i else 6 - i - j)"

text \<open>A matrix that is not symmetric, for the concrete checks: entry \<open>(a, b)\<close> is \<open>6 a + b\<close>.\<close>

definition counting66 :: mat66 where
  "counting66 = (\<lambda>(a, b). real (6 * a + b))"

section \<open>inverse66\<close>

text \<open>\<^verbatim>\<open>np.identity(6)\<close>\<close>

definition identity6 :: mat66 where
  "identity6 = (\<lambda>(i, j). if i = j \<and> i < 6 then 1 else 0)"

text \<open>
  \<^verbatim>\<open>np.linalg.inv\<close> is NumPy's, not this program's. It is modelled by what it computes
  in exact arithmetic: the inverse, by Gauss-Jordan elimination on the matrix and the
  identity side by side, and \<^verbatim>\<open>LinAlgError\<close> when a column has no pivot, which is
  exactly when the matrix is singular (lemmas \<open>linalg_inv_sound\<close> and
  \<open>linalg_inv_complete\<close> below). Which non-zero pivot is taken does not change the result.
\<close>

definition swap_rows :: "nat \<Rightarrow> nat \<Rightarrow> mat66 \<Rightarrow> mat66" where
  "swap_rows c p A = (\<lambda>(i, j). if i = c then A (p, j) else if i = p then A (c, j) else A (i, j))"

definition scale_row :: "nat \<Rightarrow> real \<Rightarrow> mat66 \<Rightarrow> mat66" where
  "scale_row c s A = (\<lambda>(i, j). if i = c then s * A (i, j) else A (i, j))"

definition clear_column :: "nat \<Rightarrow> (nat \<Rightarrow> real) \<Rightarrow> mat66 \<Rightarrow> mat66" where
  "clear_column c f A = (\<lambda>(i, j). if i = c then A (i, j) else A (i, j) - f i * A (c, j))"

fun gauss_jordan :: "nat list \<Rightarrow> mat66 \<Rightarrow> mat66 \<Rightarrow> (mat66 \<times> mat66) option" where
  "gauss_jordan [] A B = Some (A, B)"
| "gauss_jordan (c # cs) A B =
    (case find (\<lambda>p. A (p, c) \<noteq> 0) [c..<6] of
       None \<Rightarrow> None
     | Some p \<Rightarrow>
         (let A = swap_rows c p A; B = swap_rows c p B;
              s = 1 / A (c, c);
              A = scale_row c s A; B = scale_row c s B;
              f = (\<lambda>i. A (i, c));
              A = clear_column c f A; B = clear_column c f B
          in gauss_jordan cs A B))"

definition linalg_inv :: "mat66 \<Rightarrow> error + mat66" where
  "linalg_inv M =
    (case gauss_jordan [0..<6] M identity6 of
       None \<Rightarrow> Inl LinAlgError
     | Some (A, B) \<Rightarrow> Inr B)"

text \<open>\<^verbatim>\<open>np.einsum('ij,jk,kl',A,B,C)\<close> for three arrays of shape \<open>(6,6)\<close>\<close>

definition einsum_ij_jk_kl :: "mat66 \<Rightarrow> mat66 \<Rightarrow> mat66 \<Rightarrow> mat66" where
  "einsum_ij_jk_kl A B C = (\<lambda>(i, l). \<Sum>j<6. \<Sum>k<6. A (i, j) * B (j, k) * C (k, l))"

definition inverse66 :: "mat66 \<Rightarrow> error + mat66" where
  "inverse66 M66 =
    (let W = identity6;
         W = W((3, 3) := 0.5, (4, 4) := 0.5, (5, 5) := 0.5)
     in case linalg_inv M66 of
          Inl e \<Rightarrow> Inl e
        | Inr I \<Rightarrow> Inr (einsum_ij_jk_kl W I W))"

text \<open>
  The product of two arrays of shape \<open>(6,6)\<close>, and what \<open>invertible\<close> means for one: it has
  a two-sided inverse on the index range.
\<close>

definition mat_mul :: "mat66 \<Rightarrow> mat66 \<Rightarrow> mat66" where
  "mat_mul A B = (\<lambda>(i, k). \<Sum>j<6. A (i, j) * B (j, k))"

definition inverse_of :: "mat66 \<Rightarrow> mat66 \<Rightarrow> bool" where
  "inverse_of M X =
    (\<forall>i<6. \<forall>j<6. mat_mul M X (i, j) = identity6 (i, j) \<and> mat_mul X M (i, j) = identity6 (i, j))"

definition invertible66 :: "mat66 \<Rightarrow> bool" where
  "invertible66 M = (\<exists>X. inverse_of M X)"

text \<open>The invariant of the elimination, reached column \<open>c\<close>.\<close>

definition reduced :: "nat \<Rightarrow> mat66 \<Rightarrow> bool" where
  "reduced c A = (\<forall>i<6. \<forall>j<c. A (i, j) = (if i = j then 1 else 0))"

definition product_of :: "mat66 \<Rightarrow> mat66 \<Rightarrow> mat66 \<Rightarrow> bool" where
  "product_of A B M = (\<forall>i<6. \<forall>j<6. A (i, j) = mat_mul B M (i, j))"

definition injective66 :: "mat66 \<Rightarrow> bool" where
  "injective66 B = (\<forall>w. (\<forall>i<6. (\<Sum>k<6. B (i, k) * w k) = 0) \<longrightarrow> (\<forall>k<6. w k = 0))"

section \<open>E_hkl3333\<close>

definition vec_nth :: "vec3 \<Rightarrow> nat \<Rightarrow> real" where
  "vec_nth v i = (case v of (x, y, z) \<Rightarrow> if i = 0 then x else if i = 1 then y else z)"

text \<open>\<^verbatim>\<open>np.einsum('...i,...j,...k,...l,ijkl',dir,dir,dir,dir,S3333)\<close> for one direction\<close>

definition contraction :: "tensor3333 \<Rightarrow> vec3 \<Rightarrow> real" where
  "contraction S3333 dir =
    (\<Sum>i<3. \<Sum>j<3. \<Sum>k<3. \<Sum>l<3.
       vec_nth dir i * vec_nth dir j * vec_nth dir k * vec_nth dir l * S3333 (i, j, k, l))"

text \<open>
  \<^verbatim>\<open>1./...\<close>: NumPy does not raise on a zero divisor, the quotient is infinite; \<open>None\<close>
  stands for that non-finite value.
\<close>

definition E_hkl3333 :: "tensor3333 \<Rightarrow> vec3 \<Rightarrow> real option" where
  "E_hkl3333 S3333 dir =
    (if contraction S3333 dir = 0 then None else Some (1 / contraction S3333 dir))"

definition unit_vector :: "vec3 \<Rightarrow> bool" where
  "unit_vector v = (case v of (x, y, z) \<Rightarrow> x * x + y * y + z * z = 1)"

text \<open>The diagonal of \<open>W\<close> in \<^verbatim>\<open>inverse66\<close>.\<close>

definition voigt_weight :: "nat \<Rightarrow> real" where
  "voigt_weight i = (if i < 3 then 1 else 0.5)"

text \<open>A matrix that is invertible and not symmetric, for the concrete checks.\<close>

definition shear66 :: mat66 where
  "shear66 = identity6((0, 1) := 2)"

text \<open>
  The matrices of the isotropic pattern: \<open>s11\<close> on the leading diagonal, \<open>s12\<close> off the
  diagonal in the leading 3x3 block, \<open>s44\<close> on the trailing diagonal, 0 elsewhere.
\<close>

definition isotropic_pattern :: "real \<Rightarrow> real \<Rightarrow> real \<Rightarrow> mat66" where
  "isotropic_pattern s11 s12 s44 =
    (\<lambda>(i, j). if i = j \<and> i < 3 then s11
              else if i < 3 \<and> j < 3 then s12
              else if i = j \<and> i < 6 then s44
              else 0)"

section \<open>Sierpinsky\<close>

text \<open>
  The NumPy operations of \<^verbatim>\<open>Sierpinsky\<close>, each on nested lists (a 2-D array is the list
  of its rows). \<^verbatim>\<open>N\<close> is the number of subdivision steps, a natural number: for a
  negative \<^verbatim>\<open>N\<close> Python's \<^verbatim>\<open>2**N\<close> is a float and \<^verbatim>\<open>np.ones\<close> raises.
\<close>

text \<open>\<^verbatim>\<open>np.arange(n)\<close>\<close>

definition arange :: "nat \<Rightarrow> int list" where
  "arange n = map int [0..<n]"

text \<open>\<^verbatim>\<open>np.tril(np.ones((n,n),dtype=bool))\<close>: entry \<open>[a][b]\<close> is true when \<open>b \<le> a\<close>.\<close>

definition tril_ones :: "nat \<Rightarrow> bool list list" where
  "tril_ones n = map (\<lambda>a. map (\<lambda>b. b \<le> a) [0..<n]) [0..<n]"

text \<open>\<^verbatim>\<open>np.meshgrid(xs,ys,indexing='ij')\<close>\<close>

definition meshgrid_ij :: "'a list \<Rightarrow> 'a list \<Rightarrow> 'a list list \<times> 'a list list" where
  "meshgrid_ij xs ys = (map (\<lambda>x. map (\<lambda>_. x) ys) xs, map (\<lambda>_. ys) xs)"

text \<open>
  \<^verbatim>\<open>X[B]\<close> for a boolean mask \<open>B\<close> of the shape of \<open>X\<close>: the entries of \<open>X\<close> where the
  mask is true, in row-major order.
\<close>

definition masked :: "'a list list \<Rightarrow> bool list list \<Rightarrow> 'a list" where
  "masked X B = concat (map (\<lambda>(xs, bs). map fst (filter snd (zip xs bs))) (zip X B))"

text \<open>\<^verbatim>\<open>np.cumsum\<close>\<close>

fun cumsum_from :: "int \<Rightarrow> int list \<Rightarrow> int list" where
  "cumsum_from s [] = []"
| "cumsum_from s (x # xs) = (s + x) # cumsum_from (s + x) xs"

definition cumsum :: "int list \<Rightarrow> int list" where
  "cumsum xs = cumsum_from 0 xs"

text \<open>\<^verbatim>\<open>X + np.atleast_2d(col).T\<close>: the column is broadcast along the rows.\<close>

definition add_column :: "int list list \<Rightarrow> int list \<Rightarrow> int list list" where
  "add_column X col = map (\<lambda>(row, s). map (\<lambda>x. x + s) row) (zip X col)"

text \<open>\<^verbatim>\<open>np.roll(X,-1,axis=0)\<close> and \<^verbatim>\<open>np.roll(X,-1,axis=1)\<close>\<close>

definition roll_axis0 :: "'a list list \<Rightarrow> 'a list list" where
  "roll_axis0 X = rotate1 X"

definition roll_axis1 :: "'a list list \<Rightarrow> 'a list list" where
  "roll_axis1 X = map rotate1 X"

text \<open>
  \<^verbatim>\<open>np.array([[p0,p1,p2],[q0,q1,q2]]).transpose(2,3,0,1).reshape((n,2*n,3))\<close> for six
  \<open>n \<times> n\<close> arrays: the stacked array has entry \<open>[t][v][a][b]\<close>, the transposed one
  \<open>[a][b][t][v]\<close>, and the reshape merges the axes \<open>b\<close> and \<open>t\<close>; so row \<open>a\<close> holds at
  position \<open>2 b + t\<close> the triple of the three arrays of group \<open>t\<close> at \<open>[a][b]\<close>.
\<close>

definition at3 :: "'a list list \<times> 'a list list \<times> 'a list list \<Rightarrow> nat \<Rightarrow> nat \<Rightarrow> 'a \<times> 'a \<times> 'a" where
  "at3 P a b = (case P of (p0, p1, p2) \<Rightarrow> (p0 ! a ! b, p1 ! a ! b, p2 ! a ! b))"

definition stack_transpose_reshape ::
  "'a list list \<times> 'a list list \<times> 'a list list \<Rightarrow> 'a list list \<times> 'a list list \<times> 'a list list
    \<Rightarrow> nat \<Rightarrow> ('a \<times> 'a \<times> 'a) list list" where
  "stack_transpose_reshape P Q n =
    map (\<lambda>a. concat (map (\<lambda>b. [at3 P a b, at3 Q a b]) [0..<n])) [0..<n]"

text \<open>\<^verbatim>\<open>X[::2]\<close>: every second row, from the first.\<close>

fun every_second :: "'a list \<Rightarrow> 'a list" where
  "every_second [] = []"
| "every_second [x] = [x]"
| "every_second (x # y # xs) = x # every_second xs"

text \<open>
  \<^verbatim>\<open>Sierpinsky(N)\<close>. The mask \<^verbatim>\<open>np.tril(np.ones((2*n,2*n),dtype=bool))[:-2:2,:,np.newaxis]\<close>
  is broadcast along the last axis, of length 3, so the masked selection followed by
  \<^verbatim>\<open>reshape((-1,3))\<close> selects whole triples; \<^verbatim>\<open>[:-2:2]\<close> is every second row of all but the
  last two.
\<close>

definition Sierpinsky :: "nat \<Rightarrow> (real \<times> real \<times> real) list \<times> (int \<times> int \<times> int) list" where
  "Sierpinsky N =
    (let n = 1 + 2 ^ N;
         r = arange n;
         tril_n = tril_ones n;
         (k, l) = meshgrid_ij r r;
         i = masked k tril_n;
         j = masked l tril_n;
         c = add_column l (cumsum r)
     in (map (\<lambda>(i, j). (real_of_int (int n - 1 - i) / real_of_int (int n - 1),
                         real_of_int (i - j) / real_of_int (int n - 1),
                         real_of_int j / real_of_int (int n - 1)))
             (zip i j),
         masked
           (butlast
             (stack_transpose_reshape
                (c, roll_axis0 c, roll_axis1 (roll_axis0 c))
                (c, roll_axis1 (roll_axis0 c), roll_axis1 c) n))
           (every_second (take (2 * n - 2) (tril_ones (2 * n))))))"

section \<open>Assembly of the sphere\<close>

definition node :: "vec3 list" where
  "node = [(1, 0, 0), (- 1, 0, 0), (0, 1, 0), (0, - 1, 0), (0, 0, 1), (0, 0, - 1)]"

definition octahedron :: "(nat \<times> nat \<times> nat) list" where
  "octahedron = [(0, 2, 4), (2, 1, 4), (1, 3, 4), (3, 0, 4),
                 (0, 5, 2), (2, 5, 1), (1, 5, 3), (3, 5, 0)]"

text \<open>
  \<^verbatim>\<open>v/np.linalg.norm(v,axis=-1,keepdims=True)\<close> for one vector. The quotient by a zero
  norm (NaN in NumPy, 0 here) occurs for the zero vector only.
\<close>

definition normalize :: "vec3 \<Rightarrow> vec3" where
  "normalize v =
    (case v of (x, y, z) \<Rightarrow>
       (let nrm = sqrt (x * x + y * y + z * z) in (x / nrm, y / nrm, z / nrm)))"

text \<open>
  One row of \<^verbatim>\<open>np.einsum('ik,...kj',weights,node[octahedron])\<close>: the weights of a lattice
  point applied to the three vertices of a face.
\<close>

definition face_point :: "real \<times> real \<times> real \<Rightarrow> nat \<times> nat \<times> nat \<Rightarrow> vec3" where
  "face_point w face =
    (case w of (w0, w1, w2) \<Rightarrow>
     case face of (p0, p1, p2) \<Rightarrow>
     case node ! p0 of (x0, y0, z0) \<Rightarrow>
     case node ! p1 of (x1, y1, z1) \<Rightarrow>
     case node ! p2 of (x2, y2, z2) \<Rightarrow>
       (w0 * x0 + w1 * x1 + w2 * x2,
        w0 * y0 + w1 * y1 + w2 * y2,
        w0 * z0 + w1 * z1 + w2 * z2))"

definition N_faces :: nat where
  "N_faces = length octahedron"

text \<open>
  \<^verbatim>\<open>(np.broadcast_to(len(weights)*np.arange(N_faces)[:,np.newaxis,np.newaxis],
  (N_faces,)+c.shape)+c).reshape((-1,3))\<close>
\<close>

definition connectivity :: "nat \<Rightarrow> (int \<times> int \<times> int) list" where
  "connectivity N =
    (case Sierpinsky N of (weights, c) \<Rightarrow>
       concat (map (\<lambda>f. map (\<lambda>(x, y, z). (int (length weights) * f + x,
                                            int (length weights) * f + y,
                                            int (length weights) * f + z)) c)
                   (arange N_faces)))"

text \<open>
  \<^verbatim>\<open>normalize(np.einsum('ik,...kj',weights,node[octahedron])).reshape((-1,3))\<close>: the
  ellipsis is the face axis and comes first in the result, so the points are listed
  face by face.
\<close>

definition nodes :: "nat \<Rightarrow> vec3 list" where
  "nodes N =
    (case Sierpinsky N of (weights, c) \<Rightarrow>
       concat (map (\<lambda>face. map (\<lambda>w. normalize (face_point w face)) weights) octahedron))"

text \<open>
  The lattice of a face in closed form: the index pairs \<open>(a, b)\<close> with \<open>b \<le> a < n\<close> in
  row-major order, the number \<open>a (a + 1) / 2 + b\<close> of the pair \<open>(a, b)\<close>, and the two
  triangles of the cell at \<open>(a, b)\<close>.
\<close>

definition lattice :: "nat \<Rightarrow> (nat \<times> nat) list" where
  "lattice n = concat (map (\<lambda>a. map (\<lambda>b. (a, b)) [0..<Suc a]) [0..<n])"

definition point_number :: "nat \<Rightarrow> nat \<Rightarrow> nat" where
  "point_number a b = a * Suc a div 2 + b"

definition cell_up :: "nat \<Rightarrow> nat \<Rightarrow> int \<times> int \<times> int" where
  "cell_up a b =
    (int (point_number a b), int (point_number (Suc a) b), int (point_number (Suc a) (Suc b)))"

definition cell_down :: "nat \<Rightarrow> nat \<Rightarrow> int \<times> int \<times> int" where
  "cell_down a b =
    (int (point_number a b), int (point_number (Suc a) (Suc b)), int (point_number a (Suc b)))"

definition triangles :: "nat \<Rightarrow> (int \<times> int \<times> int) list" where
  "triangles n =
    concat (map (\<lambda>a. concat (map (\<lambda>b. [cell_up a b, cell_down a b]) [0..<a]) @ [cell_up a a])
                [0..<n - 1])"

definition weight_of :: "nat \<Rightarrow> nat \<times> nat \<Rightarrow> real \<times> real \<times> real" where
  "weight_of n p =
    (case p of (a, b) \<Rightarrow>
       (real_of_int (int n - 1 - int a) / real_of_int (int n - 1),
        real_of_int (int a - int b) / real_of_int (int n - 1),
        real_of_int (int b) / real_of_int (int n - 1)))"


section \<open>Properties of C66fromSymmetry\<close>

lemma iso_reduce: "C66fromSymmetry k (Some ''isotropic'') = Inr (block_isotropic k zeros66)"
  by (simp add: C66fromSymmetry_def symmetry_in_def)

lemma iso_entries:
  "block_isotropic k zeros66 (i, j) =
    (if i = j \<and> i < 3 then c11 k
     else if i < 3 \<and> j < 3 then c12 k
     else if i = j \<and> i < 6 then 0.5 * (c11 k - c12 k)
     else 0)"
  by (simp add: block_isotropic_def zeros66_def Let_def)

text \<open>
  Claim C7. For symmetry \<^verbatim>\<open>'isotropic'\<close> and any \<open>c11\<close>, \<open>c12\<close> the function returns the
  matrix whose three leading diagonal entries are \<open>c11\<close>, whose six off-diagonal entries
  of the leading 3x3 block are \<open>c12\<close>, whose three trailing diagonal entries are
  \<open>0.5 (c11 - c12)\<close>, and whose every other entry is 0. The other nineteen constants are
  not read.
\<close>

theorem isotropic_entries:
  "C66fromSymmetry k (Some ''isotropic'') =
     Inr (\<lambda>(i, j). if i = j \<and> i < 3 then c11 k
                   else if i < 3 \<and> j < 3 then c12 k
                   else if i = j \<and> i < 6 then 0.5 * (c11 k - c12 k)
                   else 0)"
proof -
  have "block_isotropic k zeros66 =
          (\<lambda>(i, j). if i = j \<and> i < 3 then c11 k
                    else if i < 3 \<and> j < 3 then c12 k
                    else if i = j \<and> i < 6 then 0.5 * (c11 k - c12 k)
                    else 0)"
  proof (rule ext)
    fix x :: "nat \<times> nat"
    obtain i j where x: "x = (i, j)" by (cases x)
    show "block_isotropic k zeros66 x =
            (case x of (i, j) \<Rightarrow> if i = j \<and> i < 3 then c11 k
                    else if i < 3 \<and> j < 3 then c12 k
                    else if i = j \<and> i < 6 then 0.5 * (c11 k - c12 k)
                    else 0)"
      unfolding x by (simp only: iso_entries prod.case)
  qed
  then show ?thesis by (simp only: iso_reduce)
qed

theorem isotropic_entries_witness:
  "C66fromSymmetry only_c11_c12 (Some ''isotropic'') =
     Inr (\<lambda>(i, j). if i = j \<and> i < 3 then 200
                   else if i < 3 \<and> j < 3 then 100
                   else if i = j \<and> i < 6 then 50
                   else 0)"
proof -
  have c: "c11 only_c11_c12 = 200" "c12 only_c11_c12 = 100"
    by (simp_all add: only_c11_c12_def)
  have h: "(0.5 :: real) * (200 - 100) = 50" by simp
  show ?thesis using isotropic_entries [of only_c11_c12] unfolding c h .
qed

text \<open>
  Claim C10. A symmetry argument that is none of the seven recognised names (\<^verbatim>\<open>None\<close> or
  any other string) raises nothing and returns the all-zero matrix, whatever the
  constants are: no block runs, so not even the unguarded comparison of \<open>c44\<close> is reached.
\<close>

theorem unrecognized_symmetry_zero:
  "\<not> symmetry_in symmetry recognized \<Longrightarrow> C66fromSymmetry k symmetry = Inr zeros66"
  by (cases symmetry) (auto simp: C66fromSymmetry_def symmetry_in_def recognized_def)

theorem unrecognized_symmetry_zero_witness:
  "\<not> symmetry_in None recognized
   \<and> C66fromSymmetry only_c11_c12 None = Inr zeros66
   \<and> \<not> symmetry_in (Some ''rhombohedral'') recognized
   \<and> C66fromSymmetry (only_c11_c12\<lparr>c44 := Some 80\<rparr>) (Some ''rhombohedral'') = Inr zeros66"
proof -
  have a: "\<not> symmetry_in None recognized" by (simp add: symmetry_in_def)
  have b: "\<not> symmetry_in (Some ''rhombohedral'') recognized"
    by (simp add: symmetry_in_def recognized_def)
  show ?thesis
    using a b unrecognized_symmetry_zero [OF a, of only_c11_c12]
      unrecognized_symmetry_zero [OF b, of "only_c11_c12\<lparr>c44 := Some 80\<rparr>"]
    by simp
qed

text \<open>
  The function raises exactly when the cubic block runs and \<open>c44\<close> is \<^verbatim>\<open>None\<close>.
\<close>

lemma C66fromSymmetry_returns:
  "(\<exists>M. C66fromSymmetry k symmetry = Inr M) \<longleftrightarrow>
     (symmetry_in symmetry cubic_up \<longrightarrow> c44 k \<noteq> None)"
  unfolding C66fromSymmetry_def cubic_up_def block_cubic_def Let_def
  by (cases "c44 k") (simp_all split: if_splits)

subsection \<open>Symmetry of the built matrix\<close>

lemma sym_zeros: "sym_except_c16 zeros66"
  by (simp add: sym_except_c16_def zeros66_def)

lemma sym_exceptD: "sym_except_c16 C \<Longrightarrow> \<not> (i = 0 \<and> j = 5 \<or> i = 5 \<and> j = 0) \<Longrightarrow> C (i, j) = C (j, i)"
  unfolding sym_except_c16_def by blast

lemma sym_diag: assumes "sym_except_c16 C" shows "sym_except_c16 (C((a, a) := v))"
  unfolding sym_except_c16_def
proof (intro allI impI)
  fix i j :: nat assume ne: "\<not> (i = 0 \<and> j = 5 \<or> i = 5 \<and> j = 0)"
  have "C (i, j) = C (j, i)" by (rule sym_exceptD [OF assms ne])
  then show "(C((a, a) := v)) (i, j) = (C((a, a) := v)) (j, i)"
    by (cases "i = a"; cases "j = a"; simp)
qed

lemma sym_pair: assumes "sym_except_c16 C" shows "sym_except_c16 (C((a, b) := v, (b, a) := v))"
  unfolding sym_except_c16_def
proof (intro allI impI)
  fix i j :: nat assume ne: "\<not> (i = 0 \<and> j = 5 \<or> i = 5 \<and> j = 0)"
  have "C (i, j) = C (j, i)" by (rule sym_exceptD [OF assms ne])
  then show "(C((a, b) := v, (b, a) := v)) (i, j) = (C((a, b) := v, (b, a) := v)) (j, i)"
    by (cases "i = a"; cases "j = a"; cases "i = b"; cases "j = b"; simp)
qed

lemma sym_c16: assumes "sym_except_c16 C" shows "sym_except_c16 (C((0, 5) := v))"
  unfolding sym_except_c16_def
proof (intro allI impI)
  fix i j :: nat assume ne: "\<not> (i = 0 \<and> j = 5 \<or> i = 5 \<and> j = 0)"
  have "C (i, j) = C (j, i)" by (rule sym_exceptD [OF assms ne])
  with ne show "(C((0, 5) := v)) (i, j) = (C((0, 5) := v)) (j, i)"
    by (cases "i = 0"; cases "j = 0"; cases "i = 5"; cases "j = 5"; simp)
qed

lemma sym_c61: assumes "sym_except_c16 C" shows "sym_except_c16 (C((5, 0) := v))"
  unfolding sym_except_c16_def
proof (intro allI impI)
  fix i j :: nat assume ne: "\<not> (i = 0 \<and> j = 5 \<or> i = 5 \<and> j = 0)"
  have "C (i, j) = C (j, i)" by (rule sym_exceptD [OF assms ne])
  with ne show "(C((5, 0) := v)) (i, j) = (C((5, 0) := v)) (j, i)"
    by (cases "i = 0"; cases "j = 0"; cases "i = 5"; cases "j = 5"; simp)
qed

lemma chain4: "C((0,2) := v, (1,2) := v, (2,0) := v, (2,1) := v)
     = C((0,2) := v, (2,0) := v, (1,2) := v, (2,1) := (v::real))" for C :: mat66
  by (rule ext) simp

lemma chain6: "C((0,1) := v, (0,2) := v, (1,2) := v, (1,0) := v, (2,0) := v, (2,1) := v)
     = C((0,1) := v, (1,0) := v, (0,2) := v, (2,0) := v, (1,2) := v, (2,1) := (v::real))" for C :: mat66
  by (rule ext) simp

lemma sym_iso: "sym_except_c16 C \<Longrightarrow> sym_except_c16 (block_isotropic k C)"
  unfolding block_isotropic_def Let_def chain6
  by (intro sym_pair sym_diag)

lemma sym_cubic: "block_cubic k C = Inr C' \<Longrightarrow> sym_except_c16 C \<Longrightarrow> sym_except_c16 C'"
  unfolding block_cubic_def Let_def
  by (cases "c44 k") (auto intro!: sym_diag)

lemma sym_tetra: "sym_except_c16 C \<Longrightarrow> sym_except_c16 (block_tetragonal k C)"
  unfolding block_tetragonal_def Let_def chain4
  by (intro sym_pair sym_diag sym_c16 sym_c61)

lemma sym_hexa: "sym_except_c16 C \<Longrightarrow> sym_except_c16 (block_hexagonal k C)"
  unfolding block_hexagonal_def by (intro sym_diag)

lemma sym_ortho: "sym_except_c16 C \<Longrightarrow> sym_except_c16 (block_orthorhombic k C)"
  unfolding block_orthorhombic_def Let_def
  by (intro sym_pair sym_diag)

lemma sym_mono: "sym_except_c16 C \<Longrightarrow> sym_except_c16 (block_monoclinic k C)"
  unfolding block_monoclinic_def Let_def
  by (intro sym_pair sym_diag)

lemma sym_tri: "sym_except_c16 C \<Longrightarrow> sym_except_c16 (block_triclinic k C)"
  unfolding block_triclinic_def Let_def
  by (intro sym_pair sym_diag)

lemma c16_iso: "block_isotropic k C (0, 5) = C (0, 5)" "block_isotropic k C (5, 0) = C (5, 0)"
  by (simp_all add: block_isotropic_def Let_def)

lemma c16_cubic: "block_cubic k C = Inr C' \<Longrightarrow> C' (0, 5) = C (0, 5) \<and> C' (5, 0) = C (5, 0)"
  by (cases "c44 k") (auto simp: block_cubic_def Let_def)

lemma c16_tetra: "block_tetragonal k C (0, 5) = or_else (c16 k) 0"
  "block_tetragonal k C (5, 0) = - or_else (c16 k) 0"
  by (simp_all add: block_tetragonal_def Let_def or_else_def neg_or_else_def split: option.splits)

lemma c16_hexa: "block_hexagonal k C (0, 5) = C (0, 5)" "block_hexagonal k C (5, 0) = C (5, 0)"
  by (simp_all add: block_hexagonal_def)

lemma c16_ortho: "block_orthorhombic k C (0, 5) = C (0, 5)" "block_orthorhombic k C (5, 0) = C (5, 0)"
  by (simp_all add: block_orthorhombic_def Let_def)

lemma c16_mono: "block_monoclinic k C (0, 5) = C (0, 5)" "block_monoclinic k C (5, 0) = C (5, 0)"
  by (simp_all add: block_monoclinic_def Let_def)

lemma c16_tri: "block_triclinic k C (0, 5) = C (0, 5)" "block_triclinic k C (5, 0) = C (5, 0)"
  by (simp_all add: block_triclinic_def Let_def)

lemma cond_block: "P C \<Longrightarrow> (\<And>C. P C \<Longrightarrow> P (f C)) \<Longrightarrow> P (if b then f C else C)"
  by simp


text \<open>
  Claim C5. Whenever a matrix \<open>M\<close> is built, for whatever symmetry argument and constants,
  \<open>M[i,j] = M[j,i]\<close> for every index pair other than \<open>(0,5)\<close> and \<open>(5,0)\<close>. For that pair
  \<open>M[5,0] = - M[0,5]\<close>, where \<open>M[0,5]\<close> is \<open>c16\<close> in the tetragonal-and-above classes when
  \<open>c16\<close> is provided and positive, and 0 otherwise.
\<close>

theorem built_matrix_symmetric_except_c16:
  assumes "C66fromSymmetry k symmetry = Inr M"
  shows "(\<forall>i j. \<not> (i = 0 \<and> j = 5 \<or> i = 5 \<and> j = 0) \<longrightarrow> M (i, j) = M (j, i))
       \<and> M (0, 5) = (if symmetry_in symmetry tetragonal_up then or_else (c16 k) 0 else 0)
       \<and> M (5, 0) = - M (0, 5)"
proof -
  let ?C0 = "if symmetry_in symmetry
                   [''isotropic'', ''cubic'', ''tetragonal'', ''hexagonal'',
                    ''orthorhombic'', ''monoclinic'', ''triclinic'']
              then block_isotropic k zeros66 else zeros66"
  have s0: "sym_except_c16 ?C0" by (simp add: sym_zeros sym_iso)
  have z0: "?C0 (0, 5) = 0" "?C0 (5, 0) = 0" by (simp_all add: c16_iso zeros66_def)
  obtain C1 where C1: "(if symmetry_in symmetry
                   [''cubic'', ''tetragonal'', ''hexagonal'',
                    ''orthorhombic'', ''monoclinic'', ''triclinic'']
              then block_cubic k ?C0 else Inr ?C0) = Inr C1"
    using assms unfolding C66fromSymmetry_def Let_def by (auto split: sum.splits)
  have s1: "sym_except_c16 C1" using C1 s0 sym_cubic by (auto split: if_splits)
  have z1: "C1 (0, 5) = 0" "C1 (5, 0) = 0" using C1 z0 c16_cubic [of k ?C0 C1] by (auto split: if_splits)
  let ?C2 = "if symmetry_in symmetry tetragonal_up then block_tetragonal k C1 else C1"
  have s2: "sym_except_c16 ?C2" by (simp add: s1 sym_tetra)
  have z2: "?C2 (0, 5) = (if symmetry_in symmetry tetragonal_up then or_else (c16 k) 0 else 0)"
    "?C2 (5, 0) = - ?C2 (0, 5)" by (simp_all add: z1 c16_tetra)
  let ?C3 = "if symmetry_in symmetry [''hexagonal'', ''orthorhombic'', ''monoclinic'', ''triclinic'']
                     then block_hexagonal k ?C2 else ?C2"
  let ?C4 = "if symmetry_in symmetry [''orthorhombic'', ''monoclinic'', ''triclinic'']
                     then block_orthorhombic k ?C3 else ?C3"
  let ?C5 = "if symmetry_in symmetry [''monoclinic'', ''triclinic'']
                     then block_monoclinic k ?C4 else ?C4"
  let ?C6 = "if symmetry_in symmetry [''triclinic'']
                     then block_triclinic k ?C5 else ?C5"
  have M: "M = ?C6"
    using assms C1 unfolding C66fromSymmetry_def Let_def tetragonal_up_def by simp
  have s6: "sym_except_c16 ?C6"
    by (intro cond_block [where P = sym_except_c16] s2 sym_hexa sym_ortho sym_mono sym_tri)
  have k6: "?C6 (0, 5) = ?C2 (0, 5)" "?C6 (5, 0) = ?C2 (5, 0)"
    by (simp_all only: c16_hexa c16_ortho c16_mono c16_tri if_distrib [of "\<lambda>f. f _"] if_cancel)
  show ?thesis
    unfolding M using s6 k6 z2 unfolding sym_except_c16_def by simp
qed

theorem built_matrix_symmetric_except_c16_witness:
  "\<exists>M. C66fromSymmetry (only_c11_c12\<lparr>c16 := Some 7, c44 := Some 80\<rparr>) (Some ''tetragonal'') = Inr M
     \<and> M (1, 2) = M (2, 1) \<and> M (3, 4) = M (4, 3) \<and> M (0, 5) = 7 \<and> M (5, 0) = - 7"
proof -
  let ?k = "only_c11_c12\<lparr>c16 := Some 7, c44 := Some 80\<rparr>"
  have "symmetry_in (Some ''tetragonal'') cubic_up \<longrightarrow> c44 ?k \<noteq> None" by simp
  then obtain M where M: "C66fromSymmetry ?k (Some ''tetragonal'') = Inr M"
    using C66fromSymmetry_returns [of ?k "Some ''tetragonal''"] by blast
  have t: "symmetry_in (Some ''tetragonal'') tetragonal_up"
    by (simp add: symmetry_in_def tetragonal_up_def)
  have "or_else (c16 ?k) 0 = 7" by (simp add: or_else_def provided_pos_def)
  with built_matrix_symmetric_except_c16 [OF M] t
  have "M (1, 2) = M (2, 1) \<and> M (3, 4) = M (4, 3) \<and> M (0, 5) = 7 \<and> M (5, 0) = - 7"
    by simp
  with M show ?thesis by blast
qed

subsection \<open>The defaulting predicate\<close>

lemma or_else_nonpositive: "v \<le> 0 \<Longrightarrow> or_else (Some v) d = d"
  by (simp add: or_else_def provided_pos_def)

lemma neg_or_else_nonpositive: "v \<le> 0 \<Longrightarrow> neg_or_else (Some v) d = d"
  by (simp add: neg_or_else_def provided_pos_def)

lemma or_else_same: "same_unless_nonpositive a b \<Longrightarrow> or_else a d = or_else b d"
  by (auto simp: same_unless_nonpositive_def or_else_def provided_pos_def split: option.splits)

lemma neg_or_else_same: "same_unless_nonpositive a b \<Longrightarrow> neg_or_else a d = neg_or_else b d"
  by (auto simp: same_unless_nonpositive_def neg_or_else_def provided_pos_def split: option.splits)

lemma same_iso: "agree_up_to_nonpositive k k' \<Longrightarrow> block_isotropic k = block_isotropic k'"
  by (rule ext) (simp add: agree_up_to_nonpositive_def block_isotropic_def)

lemma same_cubic: "agree_up_to_nonpositive k k' \<Longrightarrow> block_cubic k = block_cubic k'"
proof (rule ext)
  fix C assume "agree_up_to_nonpositive k k'"
  then have "same_unless_nonpositive (c44 k) (c44 k')" by (simp add: agree_up_to_nonpositive_def)
  then show "block_cubic k C = block_cubic k' C"
    by (auto simp: same_unless_nonpositive_def block_cubic_def split: option.splits)
qed

lemma same_tetra: "agree_up_to_nonpositive k k' \<Longrightarrow> block_tetragonal k = block_tetragonal k'"
  unfolding agree_up_to_nonpositive_def block_tetragonal_def
  by (rule ext) (simp add: or_else_same [of "c33 k" "c33 k'"] or_else_same [of "c66 k" "c66 k'"]
      or_else_same [of "c13 k" "c13 k'"] or_else_same [of "c16 k" "c16 k'"]
      neg_or_else_same [of "c16 k" "c16 k'"])

lemma same_hexa: "agree_up_to_nonpositive k k' \<Longrightarrow> block_hexagonal k = block_hexagonal k'"
  by (rule ext) (simp add: agree_up_to_nonpositive_def block_hexagonal_def)

lemma same_ortho: "agree_up_to_nonpositive k k' \<Longrightarrow> block_orthorhombic k = block_orthorhombic k'"
  unfolding agree_up_to_nonpositive_def block_orthorhombic_def
  by (rule ext) (simp add: or_else_same [of "c22 k" "c22 k'"] or_else_same [of "c33 k" "c33 k'"]
      or_else_same [of "c55 k" "c55 k'"] or_else_same [of "c66 k" "c66 k'"]
      or_else_same [of "c23 k" "c23 k'"])

lemma same_mono: "agree_up_to_nonpositive k k' \<Longrightarrow> block_monoclinic k = block_monoclinic k'"
  unfolding agree_up_to_nonpositive_def block_monoclinic_def
  by (rule ext) (simp add: or_else_same [of "c26 k" "c26 k'"] or_else_same [of "c36 k" "c36 k'"]
      or_else_same [of "c45 k" "c45 k'"])

lemma same_tri: "agree_up_to_nonpositive k k' \<Longrightarrow> block_triclinic k = block_triclinic k'"
  unfolding agree_up_to_nonpositive_def block_triclinic_def
  by (rule ext) (simp add: or_else_same [of "c14 k" "c14 k'"] or_else_same [of "c15 k" "c15 k'"]
      or_else_same [of "c24 k" "c24 k'"] or_else_same [of "c25 k" "c25 k'"]
      or_else_same [of "c34 k" "c34 k'"] or_else_same [of "c35 k" "c35 k'"]
      or_else_same [of "c36 k" "c36 k'"] or_else_same [of "c46 k" "c46 k'"]
      or_else_same [of "c56 k" "c56 k'"])

lemma cubic_reduce: "C66fromSymmetry k (Some ''cubic'') = block_cubic k (block_isotropic k zeros66)"
  by (simp add: C66fromSymmetry_def symmetry_in_def split: sum.splits)

lemma cubic_nonpositive_c44:
  assumes "c44 k = Some v" "v \<le> 0"
  shows "\<exists>M. C66fromSymmetry k (Some ''cubic'') = Inr M
           \<and> M (3, 3) = 0.5 * (c11 k - c12 k) \<and> M (4, 4) = 0.5 * (c11 k - c12 k)
           \<and> M (5, 5) = 0.5 * (c11 k - c12 k)"
  using assms by (simp add: cubic_reduce block_cubic_def block_isotropic_def Let_def)


subsection \<open>Every defaulted slot of the returned matrix\<close>

lemma class_cases:
  assumes "symmetry_in symmetry recognized"
  shows "symmetry = Some ''isotropic'' \<or> symmetry = Some ''cubic''
       \<or> symmetry = Some ''tetragonal'' \<or> symmetry = Some ''hexagonal''
       \<or> symmetry = Some ''orthorhombic'' \<or> symmetry = Some ''monoclinic''
       \<or> symmetry = Some ''triclinic''"
proof (cases symmetry)
  case None
  with assms show ?thesis by (simp add: symmetry_in_def)
next
  case (Some s)
  with assms have "s \<in> set recognized" by (simp add: symmetry_in_def)
  then show ?thesis unfolding Some recognized_def by simp
qed

lemma class_lists:
  "set cubic_up \<subseteq> set recognized" "set tetragonal_up \<subseteq> set recognized"
  "set orthorhombic_up \<subseteq> set recognized" "set monoclinic_up \<subseteq> set recognized"
  "set [''tetragonal'', ''orthorhombic'', ''monoclinic'', ''triclinic''] \<subseteq> set recognized"
  "set [''tetragonal'', ''hexagonal''] \<subseteq> set recognized"
  by (simp_all add: cubic_up_def tetragonal_up_def orthorhombic_up_def monoclinic_up_def
      recognized_def)

lemma symmetry_in_mono:
  "set names \<subseteq> set names' \<Longrightarrow> symmetry_in symmetry names \<Longrightarrow> symmetry_in symmetry names'"
  by (cases symmetry) (auto simp: symmetry_in_def)

text \<open>The matrix each class returns, as the blocks that ran.\<close>

lemma block_cubic_result:
  "block_cubic k (block_isotropic k zeros66) = Inr C \<Longrightarrow> \<exists>x. c44 k = Some x \<and> C = after_cubic k x"
  by (cases "c44 k") (auto simp: block_cubic_def after_cubic_def Let_def)

lemma cubic_result:
  assumes "C66fromSymmetry k (Some ''cubic'') = Inr M"
  shows "\<exists>x. c44 k = Some x \<and> M = after_cubic k x"
proof -
  from assms obtain C where C: "block_cubic k (block_isotropic k zeros66) = Inr C"
    and M: "M = C"
    by (auto simp: C66fromSymmetry_def symmetry_in_def split: sum.splits)
  from block_cubic_result [OF C] M show ?thesis by blast
qed

lemma tetragonal_result:
  assumes "C66fromSymmetry k (Some ''tetragonal'') = Inr M"
  shows "\<exists>x. c44 k = Some x \<and> M = block_tetragonal k (after_cubic k x)"
proof -
  from assms obtain C where C: "block_cubic k (block_isotropic k zeros66) = Inr C"
    and M: "M = block_tetragonal k (C)"
    by (auto simp: C66fromSymmetry_def symmetry_in_def split: sum.splits)
  from block_cubic_result [OF C] M show ?thesis by blast
qed

lemma hexagonal_result:
  assumes "C66fromSymmetry k (Some ''hexagonal'') = Inr M"
  shows "\<exists>x. c44 k = Some x \<and> M = block_hexagonal k (block_tetragonal k (after_cubic k x))"
proof -
  from assms obtain C where C: "block_cubic k (block_isotropic k zeros66) = Inr C"
    and M: "M = block_hexagonal k (block_tetragonal k (C))"
    by (auto simp: C66fromSymmetry_def symmetry_in_def split: sum.splits)
  from block_cubic_result [OF C] M show ?thesis by blast
qed

lemma orthorhombic_result:
  assumes "C66fromSymmetry k (Some ''orthorhombic'') = Inr M"
  shows "\<exists>x. c44 k = Some x \<and> M = block_orthorhombic k (block_hexagonal k (block_tetragonal k (after_cubic k x)))"
proof -
  from assms obtain C where C: "block_cubic k (block_isotropic k zeros66) = Inr C"
    and M: "M = block_orthorhombic k (block_hexagonal k (block_tetragonal k (C)))"
    by (auto simp: C66fromSymmetry_def symmetry_in_def split: sum.splits)
  from block_cubic_result [OF C] M show ?thesis by blast
qed

lemma monoclinic_result:
  assumes "C66fromSymmetry k (Some ''monoclinic'') = Inr M"
  shows "\<exists>x. c44 k = Some x \<and> M = block_monoclinic k (block_orthorhombic k (block_hexagonal k (block_tetragonal k (after_cubic k x))))"
proof -
  from assms obtain C where C: "block_cubic k (block_isotropic k zeros66) = Inr C"
    and M: "M = block_monoclinic k (block_orthorhombic k (block_hexagonal k (block_tetragonal k (C))))"
    by (auto simp: C66fromSymmetry_def symmetry_in_def split: sum.splits)
  from block_cubic_result [OF C] M show ?thesis by blast
qed

lemma triclinic_result:
  assumes "C66fromSymmetry k (Some ''triclinic'') = Inr M"
  shows "\<exists>x. c44 k = Some x \<and> M = block_triclinic k (block_monoclinic k (block_orthorhombic k (block_hexagonal k (block_tetragonal k (after_cubic k x)))))"
proof -
  from assms obtain C where C: "block_cubic k (block_isotropic k zeros66) = Inr C"
    and M: "M = block_triclinic k (block_monoclinic k (block_orthorhombic k (block_hexagonal k (block_tetragonal k (C)))))"
    by (auto simp: C66fromSymmetry_def symmetry_in_def split: sum.splits)
  from block_cubic_result [OF C] M show ?thesis by blast
qed

lemmas class_simps = symmetry_in_def cubic_up_def tetragonal_up_def orthorhombic_up_def
  monoclinic_up_def

lemmas slot_simps = after_cubic_def block_isotropic_def block_tetragonal_def
  block_hexagonal_def block_orthorhombic_def block_monoclinic_def block_triclinic_def
  zeros66_def Let_def

lemma or_else_positive: "0 < v \<Longrightarrow> or_else (Some v) d = v"
  by (simp add: or_else_def provided_pos_def)

lemma neg_or_else_positive: "0 < v \<Longrightarrow> neg_or_else (Some v) d = - v"
  by (simp add: neg_or_else_def provided_pos_def)

lemma slot_defaults:
  assumes M: "C66fromSymmetry k symmetry = Inr M" and v: "v \<le> 0"
  shows "(symmetry_in symmetry cubic_up \<and> c44 k = Some v \<longrightarrow> M (3, 3) = 0.5 * (c11 k - c12 k))
       \<and> (symmetry = Some ''cubic'' \<and> c44 k = Some v \<longrightarrow> M (4, 4) = 0.5 * (c11 k - c12 k) \<and> M (5, 5) = 0.5 * (c11 k - c12 k))
       \<and> (symmetry_in symmetry tetragonal_up \<and> c33 k = Some v \<longrightarrow> M (2, 2) = M (0, 0) \<and> M (0, 0) = c11 k)
       \<and> (symmetry_in symmetry [''tetragonal'', ''orthorhombic'', ''monoclinic'', ''triclinic''] \<and> c66 k = Some v \<longrightarrow> M (5, 5) = M (3, 3))
       \<and> (symmetry_in symmetry tetragonal_up \<and> c13 k = Some v \<longrightarrow> M (0, 2) = M (0, 1) \<and> M (2, 0) = M (0, 1) \<and> M (0, 1) = c12 k)
       \<and> (symmetry_in symmetry [''tetragonal'', ''hexagonal''] \<and> c13 k = Some v \<longrightarrow> M (1, 2) = M (0, 1) \<and> M (2, 1) = M (0, 1))
       \<and> (symmetry_in symmetry tetragonal_up \<and> c16 k = Some v \<longrightarrow> M (0, 5) = 0 \<and> M (5, 0) = 0)
       \<and> (symmetry_in symmetry orthorhombic_up \<and> c22 k = Some v \<longrightarrow> M (1, 1) = M (0, 0) \<and> M (0, 0) = c11 k)
       \<and> (symmetry_in symmetry orthorhombic_up \<and> c55 k = Some v \<longrightarrow> M (4, 4) = M (3, 3))
       \<and> (symmetry_in symmetry orthorhombic_up \<and> c23 k = Some v \<longrightarrow> M (1, 2) = M (0, 2) \<and> M (2, 1) = M (0, 2))
       \<and> (symmetry_in symmetry monoclinic_up \<and> c26 k = Some v \<longrightarrow> M (1, 5) = 0 \<and> M (5, 1) = 0)
       \<and> (symmetry_in symmetry monoclinic_up \<and> c36 k = Some v \<longrightarrow> M (2, 5) = 0 \<and> M (5, 2) = 0)
       \<and> (symmetry_in symmetry monoclinic_up \<and> c45 k = Some v \<longrightarrow> M (3, 4) = 0 \<and> M (4, 3) = 0)
       \<and> (symmetry = Some ''triclinic'' \<and> c14 k = Some v \<longrightarrow> M (0, 3) = 0 \<and> M (3, 0) = 0)
       \<and> (symmetry = Some ''triclinic'' \<and> c15 k = Some v \<longrightarrow> M (0, 4) = 0 \<and> M (4, 0) = 0)
       \<and> (symmetry = Some ''triclinic'' \<and> c24 k = Some v \<longrightarrow> M (1, 3) = 0 \<and> M (3, 1) = 0)
       \<and> (symmetry = Some ''triclinic'' \<and> c25 k = Some v \<longrightarrow> M (1, 4) = 0 \<and> M (4, 1) = 0)
       \<and> (symmetry = Some ''triclinic'' \<and> c34 k = Some v \<longrightarrow> M (2, 3) = 0 \<and> M (3, 2) = 0)
       \<and> (symmetry = Some ''triclinic'' \<and> c35 k = Some v \<longrightarrow> M (2, 4) = 0 \<and> M (4, 2) = 0)
       \<and> (symmetry = Some ''triclinic'' \<and> c46 k = Some v \<longrightarrow> M (3, 5) = 0 \<and> M (5, 3) = 0)
       \<and> (symmetry = Some ''triclinic'' \<and> c56 k = Some v \<longrightarrow> M (4, 5) = 0 \<and> M (5, 4) = 0)"
proof -
  have nv: "\<not> 0 < v" using v by simp
  show ?thesis
  proof (cases "symmetry_in symmetry recognized")
  case False
  then have "\<not> symmetry_in symmetry cubic_up" "\<not> symmetry_in symmetry tetragonal_up"
    "\<not> symmetry_in symmetry orthorhombic_up" "\<not> symmetry_in symmetry monoclinic_up"
    "\<not> symmetry_in symmetry [''tetragonal'', ''orthorhombic'', ''monoclinic'', ''triclinic'']"
    "\<not> symmetry_in symmetry [''tetragonal'', ''hexagonal'']"
    "symmetry \<noteq> Some ''triclinic''" "symmetry \<noteq> Some ''cubic''"
    using symmetry_in_mono [OF class_lists(1)] symmetry_in_mono [OF class_lists(2)]
      symmetry_in_mono [OF class_lists(3)] symmetry_in_mono [OF class_lists(4)]
      symmetry_in_mono [OF class_lists(5)] symmetry_in_mono [OF class_lists(6)]
    by (auto simp: symmetry_in_def recognized_def)
  then show ?thesis by simp
next
  case True
  from class_cases [OF True] show ?thesis
  proof (elim disjE)
    assume s: "symmetry = Some ''isotropic''"
    show ?thesis unfolding s by (intro conjI impI; simp add: class_simps)
  next
    assume s: "symmetry = Some ''cubic''"
    from cubic_result [OF M [unfolded s]] obtain x where x: "c44 k = Some x"
      and Me: "M = after_cubic k x"
      by blast
    show ?thesis
      unfolding s Me
      by (intro conjI impI; simp add: class_simps slot_simps or_else_nonpositive neg_or_else_nonpositive v nv x)
  next
    assume s: "symmetry = Some ''tetragonal''"
    from tetragonal_result [OF M [unfolded s]] obtain x where x: "c44 k = Some x"
      and Me: "M = block_tetragonal k (after_cubic k x)"
      by blast
    show ?thesis
      unfolding s Me
      by (intro conjI impI; simp add: class_simps slot_simps or_else_nonpositive neg_or_else_nonpositive v nv x)
  next
    assume s: "symmetry = Some ''hexagonal''"
    from hexagonal_result [OF M [unfolded s]] obtain x where x: "c44 k = Some x"
      and Me: "M = block_hexagonal k (block_tetragonal k (after_cubic k x))"
      by blast
    show ?thesis
      unfolding s Me
      by (intro conjI impI; simp add: class_simps slot_simps or_else_nonpositive neg_or_else_nonpositive v nv x)
  next
    assume s: "symmetry = Some ''orthorhombic''"
    from orthorhombic_result [OF M [unfolded s]] obtain x where x: "c44 k = Some x"
      and Me: "M = block_orthorhombic k (block_hexagonal k (block_tetragonal k (after_cubic k x)))"
      by blast
    show ?thesis
      unfolding s Me
      by (intro conjI impI; simp add: class_simps slot_simps or_else_nonpositive neg_or_else_nonpositive v nv x)
  next
    assume s: "symmetry = Some ''monoclinic''"
    from monoclinic_result [OF M [unfolded s]] obtain x where x: "c44 k = Some x"
      and Me: "M = block_monoclinic k (block_orthorhombic k (block_hexagonal k (block_tetragonal k (after_cubic k x))))"
      by blast
    show ?thesis
      unfolding s Me
      by (intro conjI impI; simp add: class_simps slot_simps or_else_nonpositive neg_or_else_nonpositive v nv x)
  next
    assume s: "symmetry = Some ''triclinic''"
    from triclinic_result [OF M [unfolded s]] obtain x where x: "c44 k = Some x"
      and Me: "M = block_triclinic k (block_monoclinic k (block_orthorhombic k (block_hexagonal k (block_tetragonal k (after_cubic k x)))))"
      by blast
    show ?thesis
      unfolding s Me
      by (intro conjI impI; simp add: class_simps slot_simps or_else_nonpositive neg_or_else_nonpositive v nv x)
  qed
qed
qed

lemma slot_honoured:
  assumes M: "C66fromSymmetry k symmetry = Inr M" and v: "0 < v"
  shows "(symmetry_in symmetry cubic_up \<and> c44 k = Some v \<longrightarrow> M (3, 3) = v)
       \<and> (symmetry = Some ''cubic'' \<and> c44 k = Some v \<longrightarrow> M (4, 4) = v \<and> M (5, 5) = v)
       \<and> (symmetry_in symmetry tetragonal_up \<and> c33 k = Some v \<longrightarrow> M (2, 2) = v)
       \<and> (symmetry_in symmetry [''tetragonal'', ''orthorhombic'', ''monoclinic'', ''triclinic''] \<and> c66 k = Some v \<longrightarrow> M (5, 5) = v)
       \<and> (symmetry_in symmetry tetragonal_up \<and> c13 k = Some v \<longrightarrow> M (0, 2) = v \<and> M (2, 0) = v)
       \<and> (symmetry_in symmetry [''tetragonal'', ''hexagonal''] \<and> c13 k = Some v \<longrightarrow> M (1, 2) = v \<and> M (2, 1) = v)
       \<and> (symmetry_in symmetry tetragonal_up \<and> c16 k = Some v \<longrightarrow> M (0, 5) = v \<and> M (5, 0) = - v)
       \<and> (symmetry_in symmetry orthorhombic_up \<and> c22 k = Some v \<longrightarrow> M (1, 1) = v)
       \<and> (symmetry_in symmetry orthorhombic_up \<and> c55 k = Some v \<longrightarrow> M (4, 4) = v)
       \<and> (symmetry_in symmetry orthorhombic_up \<and> c23 k = Some v \<longrightarrow> M (1, 2) = v \<and> M (2, 1) = v)
       \<and> (symmetry_in symmetry monoclinic_up \<and> c26 k = Some v \<longrightarrow> M (1, 5) = v \<and> M (5, 1) = v)
       \<and> (symmetry_in symmetry monoclinic_up \<and> c36 k = Some v \<longrightarrow> M (2, 5) = v \<and> M (5, 2) = v)
       \<and> (symmetry_in symmetry monoclinic_up \<and> c45 k = Some v \<longrightarrow> M (3, 4) = v \<and> M (4, 3) = v)
       \<and> (symmetry = Some ''triclinic'' \<and> c14 k = Some v \<longrightarrow> M (0, 3) = v \<and> M (3, 0) = v)
       \<and> (symmetry = Some ''triclinic'' \<and> c15 k = Some v \<longrightarrow> M (0, 4) = v \<and> M (4, 0) = v)
       \<and> (symmetry = Some ''triclinic'' \<and> c24 k = Some v \<longrightarrow> M (1, 3) = v \<and> M (3, 1) = v)
       \<and> (symmetry = Some ''triclinic'' \<and> c25 k = Some v \<longrightarrow> M (1, 4) = v \<and> M (4, 1) = v)
       \<and> (symmetry = Some ''triclinic'' \<and> c34 k = Some v \<longrightarrow> M (2, 3) = v \<and> M (3, 2) = v)
       \<and> (symmetry = Some ''triclinic'' \<and> c35 k = Some v \<longrightarrow> M (2, 4) = v \<and> M (4, 2) = v)
       \<and> (symmetry = Some ''triclinic'' \<and> c46 k = Some v \<longrightarrow> M (3, 5) = v \<and> M (5, 3) = v)
       \<and> (symmetry = Some ''triclinic'' \<and> c56 k = Some v \<longrightarrow> M (4, 5) = v \<and> M (5, 4) = v)"
proof (cases "symmetry_in symmetry recognized")
  case False
  then have "\<not> symmetry_in symmetry cubic_up" "\<not> symmetry_in symmetry tetragonal_up"
    "\<not> symmetry_in symmetry orthorhombic_up" "\<not> symmetry_in symmetry monoclinic_up"
    "\<not> symmetry_in symmetry [''tetragonal'', ''orthorhombic'', ''monoclinic'', ''triclinic'']"
    "\<not> symmetry_in symmetry [''tetragonal'', ''hexagonal'']"
    "symmetry \<noteq> Some ''triclinic''" "symmetry \<noteq> Some ''cubic''"
    using symmetry_in_mono [OF class_lists(1)] symmetry_in_mono [OF class_lists(2)]
      symmetry_in_mono [OF class_lists(3)] symmetry_in_mono [OF class_lists(4)]
      symmetry_in_mono [OF class_lists(5)] symmetry_in_mono [OF class_lists(6)]
    by (auto simp: symmetry_in_def recognized_def)
  then show ?thesis by simp
next
  case True
  from class_cases [OF True] show ?thesis
  proof (elim disjE)
    assume s: "symmetry = Some ''isotropic''"
    show ?thesis unfolding s by (intro conjI impI; simp add: class_simps)
  next
    assume s: "symmetry = Some ''cubic''"
    from cubic_result [OF M [unfolded s]] obtain x where x: "c44 k = Some x"
      and Me: "M = after_cubic k x"
      by blast
    show ?thesis
      unfolding s Me
      by (intro conjI impI; simp add: class_simps slot_simps or_else_positive neg_or_else_positive v x)
  next
    assume s: "symmetry = Some ''tetragonal''"
    from tetragonal_result [OF M [unfolded s]] obtain x where x: "c44 k = Some x"
      and Me: "M = block_tetragonal k (after_cubic k x)"
      by blast
    show ?thesis
      unfolding s Me
      by (intro conjI impI; simp add: class_simps slot_simps or_else_positive neg_or_else_positive v x)
  next
    assume s: "symmetry = Some ''hexagonal''"
    from hexagonal_result [OF M [unfolded s]] obtain x where x: "c44 k = Some x"
      and Me: "M = block_hexagonal k (block_tetragonal k (after_cubic k x))"
      by blast
    show ?thesis
      unfolding s Me
      by (intro conjI impI; simp add: class_simps slot_simps or_else_positive neg_or_else_positive v x)
  next
    assume s: "symmetry = Some ''orthorhombic''"
    from orthorhombic_result [OF M [unfolded s]] obtain x where x: "c44 k = Some x"
      and Me: "M = block_orthorhombic k (block_hexagonal k (block_tetragonal k (after_cubic k x)))"
      by blast
    show ?thesis
      unfolding s Me
      by (intro conjI impI; simp add: class_simps slot_simps or_else_positive neg_or_else_positive v x)
  next
    assume s: "symmetry = Some ''monoclinic''"
    from monoclinic_result [OF M [unfolded s]] obtain x where x: "c44 k = Some x"
      and Me: "M = block_monoclinic k (block_orthorhombic k (block_hexagonal k (block_tetragonal k (after_cubic k x))))"
      by blast
    show ?thesis
      unfolding s Me
      by (intro conjI impI; simp add: class_simps slot_simps or_else_positive neg_or_else_positive v x)
  next
    assume s: "symmetry = Some ''triclinic''"
    from triclinic_result [OF M [unfolded s]] obtain x where x: "c44 k = Some x"
      and Me: "M = block_triclinic k (block_monoclinic k (block_orthorhombic k (block_hexagonal k (block_tetragonal k (after_cubic k x)))))"
      by blast
    show ?thesis
      unfolding s Me
      by (intro conjI impI; simp add: class_simps slot_simps or_else_positive neg_or_else_positive v x)
  qed
qed

text \<open>
  Claim C6. A supplied constant that is zero or negative is ignored, and the value that
  was already computed is used. This is stated five times over.
  \<^item> For the defaulting expressions \<^verbatim>\<open>c if c and c > 0.0 else d\<close> and
    \<^verbatim>\<open>-c if c and c > 0.0 else d\<close>: the value is \<open>d\<close>.
  \<^item> For the whole function: two sets of constants that differ only in supplied
    non-positive values of the nineteen optional constants give the same result.
  \<^item> For symmetry \<^verbatim>\<open>'cubic'\<close> with \<open>c44 \<le> 0\<close>: a matrix is returned and its three shear
    entries keep \<open>0.5 (c11 - c12)\<close>.
  \<^item> For every slot of the returned matrix \<open>M\<close> that a constant governs, in every class
    where it does, with the constant supplied and not positive: the slot holds the default
    of its line of the source, given by the entry of \<open>M\<close> the line reads (\<open>C[0,0]\<close>,
    \<open>C[3,3]\<close>, \<open>C[0,2]\<close>; \<open>C[0,1]\<close> holds the \<open>c12\<close> that \<open>C[0,2]\<close> held when read) or 0.
  \<^item> For contrast, with the constant supplied and positive the same slot holds the
    constant (and \<open>C[5,0]\<close> its negative).
  In the class hexagonal \<open>C[5,5]\<close> is not governed by \<open>c66\<close>: the hexagonal block overwrites
  it with \<open>0.5 (c11 - c12)\<close>.
\<close>

theorem nonpositive_constant_ignored:
  "(v \<le> 0 \<longrightarrow> or_else (Some v) d = d \<and> neg_or_else (Some v) d = d)
   \<and> (agree_up_to_nonpositive k k' \<longrightarrow> C66fromSymmetry k symmetry = C66fromSymmetry k' symmetry)
   \<and> (c44 k = Some v \<and> v \<le> 0 \<longrightarrow>
        (\<exists>M. C66fromSymmetry k (Some ''cubic'') = Inr M
           \<and> M (3, 3) = 0.5 * (c11 k - c12 k) \<and> M (4, 4) = 0.5 * (c11 k - c12 k)
           \<and> M (5, 5) = 0.5 * (c11 k - c12 k)))
   \<and> (C66fromSymmetry k symmetry = Inr M \<and> v \<le> 0 \<longrightarrow>
        (symmetry_in symmetry cubic_up \<and> c44 k = Some v \<longrightarrow> M (3, 3) = 0.5 * (c11 k - c12 k))
        \<and> (symmetry = Some ''cubic'' \<and> c44 k = Some v \<longrightarrow> M (4, 4) = 0.5 * (c11 k - c12 k) \<and> M (5, 5) = 0.5 * (c11 k - c12 k))
        \<and> (symmetry_in symmetry tetragonal_up \<and> c33 k = Some v \<longrightarrow> M (2, 2) = M (0, 0) \<and> M (0, 0) = c11 k)
        \<and> (symmetry_in symmetry [''tetragonal'', ''orthorhombic'', ''monoclinic'', ''triclinic''] \<and> c66 k = Some v \<longrightarrow> M (5, 5) = M (3, 3))
        \<and> (symmetry_in symmetry tetragonal_up \<and> c13 k = Some v \<longrightarrow> M (0, 2) = M (0, 1) \<and> M (2, 0) = M (0, 1) \<and> M (0, 1) = c12 k)
        \<and> (symmetry_in symmetry [''tetragonal'', ''hexagonal''] \<and> c13 k = Some v \<longrightarrow> M (1, 2) = M (0, 1) \<and> M (2, 1) = M (0, 1))
        \<and> (symmetry_in symmetry tetragonal_up \<and> c16 k = Some v \<longrightarrow> M (0, 5) = 0 \<and> M (5, 0) = 0)
        \<and> (symmetry_in symmetry orthorhombic_up \<and> c22 k = Some v \<longrightarrow> M (1, 1) = M (0, 0) \<and> M (0, 0) = c11 k)
        \<and> (symmetry_in symmetry orthorhombic_up \<and> c55 k = Some v \<longrightarrow> M (4, 4) = M (3, 3))
        \<and> (symmetry_in symmetry orthorhombic_up \<and> c23 k = Some v \<longrightarrow> M (1, 2) = M (0, 2) \<and> M (2, 1) = M (0, 2))
        \<and> (symmetry_in symmetry monoclinic_up \<and> c26 k = Some v \<longrightarrow> M (1, 5) = 0 \<and> M (5, 1) = 0)
        \<and> (symmetry_in symmetry monoclinic_up \<and> c36 k = Some v \<longrightarrow> M (2, 5) = 0 \<and> M (5, 2) = 0)
        \<and> (symmetry_in symmetry monoclinic_up \<and> c45 k = Some v \<longrightarrow> M (3, 4) = 0 \<and> M (4, 3) = 0)
        \<and> (symmetry = Some ''triclinic'' \<and> c14 k = Some v \<longrightarrow> M (0, 3) = 0 \<and> M (3, 0) = 0)
        \<and> (symmetry = Some ''triclinic'' \<and> c15 k = Some v \<longrightarrow> M (0, 4) = 0 \<and> M (4, 0) = 0)
        \<and> (symmetry = Some ''triclinic'' \<and> c24 k = Some v \<longrightarrow> M (1, 3) = 0 \<and> M (3, 1) = 0)
        \<and> (symmetry = Some ''triclinic'' \<and> c25 k = Some v \<longrightarrow> M (1, 4) = 0 \<and> M (4, 1) = 0)
        \<and> (symmetry = Some ''triclinic'' \<and> c34 k = Some v \<longrightarrow> M (2, 3) = 0 \<and> M (3, 2) = 0)
        \<and> (symmetry = Some ''triclinic'' \<and> c35 k = Some v \<longrightarrow> M (2, 4) = 0 \<and> M (4, 2) = 0)
        \<and> (symmetry = Some ''triclinic'' \<and> c46 k = Some v \<longrightarrow> M (3, 5) = 0 \<and> M (5, 3) = 0)
        \<and> (symmetry = Some ''triclinic'' \<and> c56 k = Some v \<longrightarrow> M (4, 5) = 0 \<and> M (5, 4) = 0))
   \<and> (C66fromSymmetry k symmetry = Inr M \<and> 0 < v \<longrightarrow>
        (symmetry_in symmetry cubic_up \<and> c44 k = Some v \<longrightarrow> M (3, 3) = v)
        \<and> (symmetry = Some ''cubic'' \<and> c44 k = Some v \<longrightarrow> M (4, 4) = v \<and> M (5, 5) = v)
        \<and> (symmetry_in symmetry tetragonal_up \<and> c33 k = Some v \<longrightarrow> M (2, 2) = v)
        \<and> (symmetry_in symmetry [''tetragonal'', ''orthorhombic'', ''monoclinic'', ''triclinic''] \<and> c66 k = Some v \<longrightarrow> M (5, 5) = v)
        \<and> (symmetry_in symmetry tetragonal_up \<and> c13 k = Some v \<longrightarrow> M (0, 2) = v \<and> M (2, 0) = v)
        \<and> (symmetry_in symmetry [''tetragonal'', ''hexagonal''] \<and> c13 k = Some v \<longrightarrow> M (1, 2) = v \<and> M (2, 1) = v)
        \<and> (symmetry_in symmetry tetragonal_up \<and> c16 k = Some v \<longrightarrow> M (0, 5) = v \<and> M (5, 0) = - v)
        \<and> (symmetry_in symmetry orthorhombic_up \<and> c22 k = Some v \<longrightarrow> M (1, 1) = v)
        \<and> (symmetry_in symmetry orthorhombic_up \<and> c55 k = Some v \<longrightarrow> M (4, 4) = v)
        \<and> (symmetry_in symmetry orthorhombic_up \<and> c23 k = Some v \<longrightarrow> M (1, 2) = v \<and> M (2, 1) = v)
        \<and> (symmetry_in symmetry monoclinic_up \<and> c26 k = Some v \<longrightarrow> M (1, 5) = v \<and> M (5, 1) = v)
        \<and> (symmetry_in symmetry monoclinic_up \<and> c36 k = Some v \<longrightarrow> M (2, 5) = v \<and> M (5, 2) = v)
        \<and> (symmetry_in symmetry monoclinic_up \<and> c45 k = Some v \<longrightarrow> M (3, 4) = v \<and> M (4, 3) = v)
        \<and> (symmetry = Some ''triclinic'' \<and> c14 k = Some v \<longrightarrow> M (0, 3) = v \<and> M (3, 0) = v)
        \<and> (symmetry = Some ''triclinic'' \<and> c15 k = Some v \<longrightarrow> M (0, 4) = v \<and> M (4, 0) = v)
        \<and> (symmetry = Some ''triclinic'' \<and> c24 k = Some v \<longrightarrow> M (1, 3) = v \<and> M (3, 1) = v)
        \<and> (symmetry = Some ''triclinic'' \<and> c25 k = Some v \<longrightarrow> M (1, 4) = v \<and> M (4, 1) = v)
        \<and> (symmetry = Some ''triclinic'' \<and> c34 k = Some v \<longrightarrow> M (2, 3) = v \<and> M (3, 2) = v)
        \<and> (symmetry = Some ''triclinic'' \<and> c35 k = Some v \<longrightarrow> M (2, 4) = v \<and> M (4, 2) = v)
        \<and> (symmetry = Some ''triclinic'' \<and> c46 k = Some v \<longrightarrow> M (3, 5) = v \<and> M (5, 3) = v)
        \<and> (symmetry = Some ''triclinic'' \<and> c56 k = Some v \<longrightarrow> M (4, 5) = v \<and> M (5, 4) = v))
   \<and> (C66fromSymmetry k (Some ''hexagonal'') = Inr M \<longrightarrow> M (5, 5) = 0.5 * (c11 k - c12 k))"
proof (intro conjI)
  show "v \<le> 0 \<longrightarrow> or_else (Some v) d = d \<and> neg_or_else (Some v) d = d"
    by (simp add: or_else_nonpositive neg_or_else_nonpositive)
  show "agree_up_to_nonpositive k k' \<longrightarrow> C66fromSymmetry k symmetry = C66fromSymmetry k' symmetry"
  proof
    assume a: "agree_up_to_nonpositive k k'"
    show "C66fromSymmetry k symmetry = C66fromSymmetry k' symmetry"
      unfolding C66fromSymmetry_def
      by (simp only: same_iso [OF a] same_cubic [OF a] same_tetra [OF a] same_hexa [OF a]
          same_ortho [OF a] same_mono [OF a] same_tri [OF a])
  qed
  show "c44 k = Some v \<and> v \<le> 0 \<longrightarrow>
        (\<exists>M. C66fromSymmetry k (Some ''cubic'') = Inr M
           \<and> M (3, 3) = 0.5 * (c11 k - c12 k) \<and> M (4, 4) = 0.5 * (c11 k - c12 k)
           \<and> M (5, 5) = 0.5 * (c11 k - c12 k))"
    using cubic_nonpositive_c44 [of k v] by blast
  show "C66fromSymmetry k symmetry = Inr M \<and> v \<le> 0 \<longrightarrow>
        (symmetry_in symmetry cubic_up \<and> c44 k = Some v \<longrightarrow> M (3, 3) = 0.5 * (c11 k - c12 k))
        \<and> (symmetry = Some ''cubic'' \<and> c44 k = Some v \<longrightarrow> M (4, 4) = 0.5 * (c11 k - c12 k) \<and> M (5, 5) = 0.5 * (c11 k - c12 k))
        \<and> (symmetry_in symmetry tetragonal_up \<and> c33 k = Some v \<longrightarrow> M (2, 2) = M (0, 0) \<and> M (0, 0) = c11 k)
        \<and> (symmetry_in symmetry [''tetragonal'', ''orthorhombic'', ''monoclinic'', ''triclinic''] \<and> c66 k = Some v \<longrightarrow> M (5, 5) = M (3, 3))
        \<and> (symmetry_in symmetry tetragonal_up \<and> c13 k = Some v \<longrightarrow> M (0, 2) = M (0, 1) \<and> M (2, 0) = M (0, 1) \<and> M (0, 1) = c12 k)
        \<and> (symmetry_in symmetry [''tetragonal'', ''hexagonal''] \<and> c13 k = Some v \<longrightarrow> M (1, 2) = M (0, 1) \<and> M (2, 1) = M (0, 1))
        \<and> (symmetry_in symmetry tetragonal_up \<and> c16 k = Some v \<longrightarrow> M (0, 5) = 0 \<and> M (5, 0) = 0)
        \<and> (symmetry_in symmetry orthorhombic_up \<and> c22 k = Some v \<longrightarrow> M (1, 1) = M (0, 0) \<and> M (0, 0) = c11 k)
        \<and> (symmetry_in symmetry orthorhombic_up \<and> c55 k = Some v \<longrightarrow> M (4, 4) = M (3, 3))
        \<and> (symmetry_in symmetry orthorhombic_up \<and> c23 k = Some v \<longrightarrow> M (1, 2) = M (0, 2) \<and> M (2, 1) = M (0, 2))
        \<and> (symmetry_in symmetry monoclinic_up \<and> c26 k = Some v \<longrightarrow> M (1, 5) = 0 \<and> M (5, 1) = 0)
        \<and> (symmetry_in symmetry monoclinic_up \<and> c36 k = Some v \<longrightarrow> M (2, 5) = 0 \<and> M (5, 2) = 0)
        \<and> (symmetry_in symmetry monoclinic_up \<and> c45 k = Some v \<longrightarrow> M (3, 4) = 0 \<and> M (4, 3) = 0)
        \<and> (symmetry = Some ''triclinic'' \<and> c14 k = Some v \<longrightarrow> M (0, 3) = 0 \<and> M (3, 0) = 0)
        \<and> (symmetry = Some ''triclinic'' \<and> c15 k = Some v \<longrightarrow> M (0, 4) = 0 \<and> M (4, 0) = 0)
        \<and> (symmetry = Some ''triclinic'' \<and> c24 k = Some v \<longrightarrow> M (1, 3) = 0 \<and> M (3, 1) = 0)
        \<and> (symmetry = Some ''triclinic'' \<and> c25 k = Some v \<longrightarrow> M (1, 4) = 0 \<and> M (4, 1) = 0)
        \<and> (symmetry = Some ''triclinic'' \<and> c34 k = Some v \<longrightarrow> M (2, 3) = 0 \<and> M (3, 2) = 0)
        \<and> (symmetry = Some ''triclinic'' \<and> c35 k = Some v \<longrightarrow> M (2, 4) = 0 \<and> M (4, 2) = 0)
        \<and> (symmetry = Some ''triclinic'' \<and> c46 k = Some v \<longrightarrow> M (3, 5) = 0 \<and> M (5, 3) = 0)
        \<and> (symmetry = Some ''triclinic'' \<and> c56 k = Some v \<longrightarrow> M (4, 5) = 0 \<and> M (5, 4) = 0)"
    by (rule impI, erule conjE, rule slot_defaults)
  show "C66fromSymmetry k symmetry = Inr M \<and> 0 < v \<longrightarrow>
        (symmetry_in symmetry cubic_up \<and> c44 k = Some v \<longrightarrow> M (3, 3) = v)
        \<and> (symmetry = Some ''cubic'' \<and> c44 k = Some v \<longrightarrow> M (4, 4) = v \<and> M (5, 5) = v)
        \<and> (symmetry_in symmetry tetragonal_up \<and> c33 k = Some v \<longrightarrow> M (2, 2) = v)
        \<and> (symmetry_in symmetry [''tetragonal'', ''orthorhombic'', ''monoclinic'', ''triclinic''] \<and> c66 k = Some v \<longrightarrow> M (5, 5) = v)
        \<and> (symmetry_in symmetry tetragonal_up \<and> c13 k = Some v \<longrightarrow> M (0, 2) = v \<and> M (2, 0) = v)
        \<and> (symmetry_in symmetry [''tetragonal'', ''hexagonal''] \<and> c13 k = Some v \<longrightarrow> M (1, 2) = v \<and> M (2, 1) = v)
        \<and> (symmetry_in symmetry tetragonal_up \<and> c16 k = Some v \<longrightarrow> M (0, 5) = v \<and> M (5, 0) = - v)
        \<and> (symmetry_in symmetry orthorhombic_up \<and> c22 k = Some v \<longrightarrow> M (1, 1) = v)
        \<and> (symmetry_in symmetry orthorhombic_up \<and> c55 k = Some v \<longrightarrow> M (4, 4) = v)
        \<and> (symmetry_in symmetry orthorhombic_up \<and> c23 k = Some v \<longrightarrow> M (1, 2) = v \<and> M (2, 1) = v)
        \<and> (symmetry_in symmetry monoclinic_up \<and> c26 k = Some v \<longrightarrow> M (1, 5) = v \<and> M (5, 1) = v)
        \<and> (symmetry_in symmetry monoclinic_up \<and> c36 k = Some v \<longrightarrow> M (2, 5) = v \<and> M (5, 2) = v)
        \<and> (symmetry_in symmetry monoclinic_up \<and> c45 k = Some v \<longrightarrow> M (3, 4) = v \<and> M (4, 3) = v)
        \<and> (symmetry = Some ''triclinic'' \<and> c14 k = Some v \<longrightarrow> M (0, 3) = v \<and> M (3, 0) = v)
        \<and> (symmetry = Some ''triclinic'' \<and> c15 k = Some v \<longrightarrow> M (0, 4) = v \<and> M (4, 0) = v)
        \<and> (symmetry = Some ''triclinic'' \<and> c24 k = Some v \<longrightarrow> M (1, 3) = v \<and> M (3, 1) = v)
        \<and> (symmetry = Some ''triclinic'' \<and> c25 k = Some v \<longrightarrow> M (1, 4) = v \<and> M (4, 1) = v)
        \<and> (symmetry = Some ''triclinic'' \<and> c34 k = Some v \<longrightarrow> M (2, 3) = v \<and> M (3, 2) = v)
        \<and> (symmetry = Some ''triclinic'' \<and> c35 k = Some v \<longrightarrow> M (2, 4) = v \<and> M (4, 2) = v)
        \<and> (symmetry = Some ''triclinic'' \<and> c46 k = Some v \<longrightarrow> M (3, 5) = v \<and> M (5, 3) = v)
        \<and> (symmetry = Some ''triclinic'' \<and> c56 k = Some v \<longrightarrow> M (4, 5) = v \<and> M (5, 4) = v)"
    by (rule impI, erule conjE, rule slot_honoured)
  show "C66fromSymmetry k (Some ''hexagonal'') = Inr M \<longrightarrow> M (5, 5) = 0.5 * (c11 k - c12 k)"
  proof
    assume "C66fromSymmetry k (Some ''hexagonal'') = Inr M"
    from hexagonal_result [OF this] obtain x where
      "M = block_hexagonal k (block_tetragonal k (after_cubic k x))" by blast
    then show "M (5, 5) = 0.5 * (c11 k - c12 k)" by (simp add: block_hexagonal_def)
  qed
qed

theorem nonpositive_constant_ignored_witness:
  "(- 3 :: real) \<le> 0
   \<and> or_else (Some (- 3)) 5 = 5 \<and> neg_or_else (Some (- 3)) 5 = 5
   \<and> agree_up_to_nonpositive (only_c11_c12\<lparr>c44 := Some (- 3)\<rparr>) (only_c11_c12\<lparr>c44 := Some 0\<rparr>)
   \<and> C66fromSymmetry (only_c11_c12\<lparr>c44 := Some (- 3)\<rparr>) (Some ''cubic'')
       = C66fromSymmetry (only_c11_c12\<lparr>c44 := Some 0\<rparr>) (Some ''cubic'')
   \<and> (\<exists>M. C66fromSymmetry (only_c11_c12\<lparr>c44 := Some (- 3)\<rparr>) (Some ''cubic'') = Inr M
         \<and> M (3, 3) = 50 \<and> M (4, 4) = 50 \<and> M (5, 5) = 50)
   \<and> (- 1 :: real) \<le> 0 \<and> (0 :: real) < 80
   \<and> (\<exists>M. C66fromSymmetry (only_c11_c12\<lparr>c44 := Some 80, c66 := Some (- 1)\<rparr>)
              (Some ''orthorhombic'') = Inr M
         \<and> M (3, 3) = 80 \<and> M (5, 5) = 80)
   \<and> (\<exists>M. C66fromSymmetry (only_c11_c12\<lparr>c44 := Some 80, c66 := Some (- 1)\<rparr>)
              (Some ''hexagonal'') = Inr M
         \<and> M (5, 5) = 50)"
proof -
  let ?k = "only_c11_c12\<lparr>c44 := Some (- 3)\<rparr>" and ?k' = "only_c11_c12\<lparr>c44 := Some 0\<rparr>"
  let ?o = "only_c11_c12\<lparr>c44 := Some 80, c66 := Some (- 1)\<rparr>"
  have n3: "(- 3 :: real) \<le> 0" and n1: "(- 1 :: real) \<le> 0" and p80: "(0 :: real) < 80"
    by simp_all
  have a: "agree_up_to_nonpositive ?k ?k'"
    by (simp add: agree_up_to_nonpositive_def same_unless_nonpositive_def only_c11_c12_def)
  have b: "c44 ?k = Some (- 3) \<and> (- 3 :: real) \<le> 0" by simp
  have c: "0.5 * (c11 ?k - c12 ?k) = 50" by (simp add: only_c11_c12_def)
  note t = nonpositive_constant_ignored
    [where v = "- 3" and d = 5 and k = ?k and k' = ?k' and symmetry = "Some ''cubic''"]
  have t1: "or_else (Some (- 3)) 5 = 5 \<and> neg_or_else (Some (- 3)) 5 = 5"
    by (rule t [THEN conjunct1, THEN mp, OF n3])
  have t2: "C66fromSymmetry ?k (Some ''cubic'') = C66fromSymmetry ?k' (Some ''cubic'')"
    by (rule t [THEN conjunct2, THEN conjunct1, THEN mp, OF a])
  have t3: "\<exists>M. C66fromSymmetry ?k (Some ''cubic'') = Inr M
         \<and> M (3, 3) = 50 \<and> M (4, 4) = 50 \<and> M (5, 5) = 50"
    using t [THEN conjunct2, THEN conjunct2, THEN conjunct1, THEN mp, OF b] unfolding c .
  have "symmetry_in (Some ''orthorhombic'') cubic_up \<longrightarrow> c44 ?o \<noteq> None" by simp
  then obtain M where M: "C66fromSymmetry ?o (Some ''orthorhombic'') = Inr M"
    using C66fromSymmetry_returns [of ?o "Some ''orthorhombic''"] by blast
  have p: "symmetry_in (Some ''orthorhombic'')
             [''tetragonal'', ''orthorhombic'', ''monoclinic'', ''triclinic'']"
    "symmetry_in (Some ''orthorhombic'') cubic_up"
    by (simp_all add: symmetry_in_def cubic_up_def)
  have o: "c66 ?o = Some (- 1)" "c44 ?o = Some 80" by simp_all
  note u = nonpositive_constant_ignored
    [where v = "- 1" and k = ?o and symmetry = "Some ''orthorhombic''" and M = M,
      THEN conjunct2, THEN conjunct2, THEN conjunct2, THEN conjunct1, THEN mp,
      OF conjI [OF M n1]]
  have m55: "M (5, 5) = M (3, 3)"
    by (rule u [THEN conjunct2, THEN conjunct2, THEN conjunct2, THEN conjunct1, THEN mp,
          OF conjI [OF p(1) o(1)]])
  note w = nonpositive_constant_ignored
    [where v = 80 and k = ?o and symmetry = "Some ''orthorhombic''" and M = M,
      THEN conjunct2, THEN conjunct2, THEN conjunct2, THEN conjunct2, THEN conjunct1, THEN mp,
      OF conjI [OF M p80]]
  have m33: "M (3, 3) = 80"
    by (rule w [THEN conjunct1, THEN mp, OF conjI [OF p(2) o(2)]])
  have t4: "\<exists>M. C66fromSymmetry ?o (Some ''orthorhombic'') = Inr M
         \<and> M (3, 3) = 80 \<and> M (5, 5) = 80"
    using M m33 m55 by auto
  have "symmetry_in (Some ''hexagonal'') cubic_up \<longrightarrow> c44 ?o \<noteq> None" by simp
  then obtain H where H: "C66fromSymmetry ?o (Some ''hexagonal'') = Inr H"
    using C66fromSymmetry_returns [of ?o "Some ''hexagonal''"] by blast
  have co: "0.5 * (c11 ?o - c12 ?o) = 50" by (simp add: only_c11_c12_def)
  have "H (5, 5) = 50"
    using nonpositive_constant_ignored
      [where k = ?o and M = H,
        THEN conjunct2, THEN conjunct2, THEN conjunct2, THEN conjunct2, THEN conjunct2,
        THEN mp, OF H]
    unfolding co .
  with H have t5: "\<exists>M. C66fromSymmetry ?o (Some ''hexagonal'') = Inr M \<and> M (5, 5) = 50"
    by blast
  from n3 t1 a t2 t3 n1 p80 t4 t5 show ?thesis by (intro conjI) (erule conjunct1 conjunct2 | assumption)+
qed

section \<open>Properties of C66toC3333\<close>

lemma upt6: "[0..<6] = [0, 1, 2, 3, 4, 5]"
  by (simp add: upt_rec)

lemma lt3_cases: "i < (3::nat) \<Longrightarrow> i = 0 \<or> i = 1 \<or> i = 2"
  by arith

text \<open>
  Every entry with indices in range is written, and its final value is the matrix entry
  at the Voigt rows of its two index pairs.
\<close>

lemma C66toC3333_entry:
  assumes "i < 3" "j < 3" "k < 3" "l < 3"
  shows "C66toC3333 M (i, j, k, l) = M (voigt_row i j, voigt_row k l)"
  using lt3_cases [OF assms(1)] lt3_cases [OF assms(2)] lt3_cases [OF assms(3)]
    lt3_cases [OF assms(4)]
  by (elim disjE; simp add: C66toC3333_def upt6 voigt_index_def Let_def voigt_row_def)

lemma voigt_row_commute: "voigt_row i j = voigt_row j i"
  by (simp add: voigt_row_def add.commute)

text \<open>
  Claim C4. For every 6x6 input matrix, symmetric or not, and all indices \<open>i, j, k, l\<close> in
  \<open>{0, 1, 2}\<close>, the expanded tensor \<open>T\<close> satisfies
  \<open>T[i,j,k,l] = T[i,j,l,k] = T[j,i,k,l] = T[j,i,l,k]\<close>.
\<close>

theorem C66toC3333_minor_symmetries:
  assumes "i < 3" "j < 3" "k < 3" "l < 3"
  shows "C66toC3333 M (i, j, k, l) = C66toC3333 M (i, j, l, k)
       \<and> C66toC3333 M (i, j, k, l) = C66toC3333 M (j, i, k, l)
       \<and> C66toC3333 M (i, j, k, l) = C66toC3333 M (j, i, l, k)"
  using assms by (simp add: C66toC3333_entry voigt_row_commute [of l k] voigt_row_commute [of j i])

theorem C66toC3333_minor_symmetries_witness:
  "(0::nat) < 3 \<and> (1::nat) < 3 \<and> (2::nat) < 3
   \<and> C66toC3333 counting66 (0, 1, 1, 2) = C66toC3333 counting66 (0, 1, 2, 1)
   \<and> C66toC3333 counting66 (0, 1, 1, 2) = C66toC3333 counting66 (1, 0, 1, 2)
   \<and> C66toC3333 counting66 (0, 1, 1, 2) = C66toC3333 counting66 (1, 0, 2, 1)"
  using C66toC3333_minor_symmetries [of 0 1 1 2 counting66] by simp

section \<open>The inverse of a 6x6 matrix\<close>

lemma sum_delta6: "i < (6::nat) \<Longrightarrow> (\<Sum>k<6. (if i = k then 1 else 0) * f k) = (f i :: real)"
proof -
  assume i: "i < (6::nat)"
  have "(\<Sum>k<6. (if i = k then 1 else 0) * f k) = (\<Sum>k\<in>{..<6}. if k = i then f k else 0)"
    by (intro sum.cong) auto
  also have "\<dots> = f i" using i by (simp only: sum.delta finite_lessThan) simp
  finally show ?thesis .
qed

lemma sum_delta6': "i < (6::nat) \<Longrightarrow> (\<Sum>k<6. f k * (if k = i then 1 else 0)) = (f i :: real)"
proof -
  assume i: "i < (6::nat)"
  have "(\<Sum>k<6. f k * (if k = i then 1 else 0)) = (\<Sum>k\<in>{..<6}. if k = i then f k else 0)"
    by (intro sum.cong) auto
  also have "\<dots> = f i" using i by (simp only: sum.delta finite_lessThan) simp
  finally show ?thesis .
qed

lemma find_pivot_Some:
  assumes "find (\<lambda>p. A (p, c) \<noteq> 0) [c..<6] = Some p"
  shows "c \<le> p \<and> p < 6 \<and> A (p, c) \<noteq> (0::real)"
proof -
  from assms have "p \<in> set [c..<6] \<and> A (p, c) \<noteq> 0"
    by (auto simp: find_Some_iff in_set_conv_nth)
  then show ?thesis by simp
qed

lemma find_pivot_None:
  assumes "find (\<lambda>p. A (p, c) \<noteq> 0) [c..<6] = None" "c \<le> p" "p < 6"
  shows "A (p, c) = (0::real)"
  using assms by (auto simp: find_None_iff)

subsection \<open>The row operations keep the invariant\<close>

lemma product_swap:
  assumes "product_of A B M" "c < 6" "p < 6"
  shows "product_of (swap_rows c p A) (swap_rows c p B) M"
  using assms unfolding product_of_def mat_mul_def swap_rows_def by simp

lemma product_scale:
  assumes "product_of A B M"
  shows "product_of (scale_row c s A) (scale_row c s B) M"
  using assms unfolding product_of_def mat_mul_def scale_row_def
  by (simp add: sum_distrib_left mult.assoc)

lemma product_clear:
  assumes "product_of A B M" "c < 6"
  shows "product_of (clear_column c f A) (clear_column c f B) M"
  using assms unfolding product_of_def mat_mul_def clear_column_def
  by (simp add: sum_distrib_left sum_subtractf left_diff_distrib mult.assoc)

lemma injective_swap:
  assumes B: "injective66 B" and c: "c < 6" and p: "p < 6"
  shows "injective66 (swap_rows c p B)"
  unfolding injective66_def
proof (intro allI impI)
  fix w k assume h: "\<forall>i<6. (\<Sum>k<6. swap_rows c p B (i, k) * w k) = 0" and k: "k < (6::nat)"
  have sp: "swap_rows c p B (p, k) = B (c, k)" and sc: "swap_rows c p B (c, k) = B (p, k)" for k
    by (simp_all add: swap_rows_def)
  have "\<forall>i<6. (\<Sum>k<6. B (i, k) * w k) = 0"
  proof (intro allI impI)
    fix i :: nat assume i: "i < 6"
    consider "i = c" | "i = p" | "i \<noteq> c" "i \<noteq> p" by blast
    then show "(\<Sum>k<6. B (i, k) * w k) = 0"
    proof cases
      case 1
      with h [rule_format, OF p] show ?thesis by (simp only: sp)
    next
      case 2
      with h [rule_format, OF c] show ?thesis by (simp only: sc)
    next
      case 3
      with h [rule_format, OF i] show ?thesis by (simp add: swap_rows_def)
    qed
  qed
  with B k show "w k = 0" unfolding injective66_def by blast
qed

lemma injective_scale:
  assumes B: "injective66 B" and s: "s \<noteq> 0"
  shows "injective66 (scale_row c s B)"
  unfolding injective66_def
proof (intro allI impI)
  fix w k assume h: "\<forall>i<6. (\<Sum>k<6. scale_row c s B (i, k) * w k) = 0" and k: "k < (6::nat)"
  have "\<forall>i<6. (\<Sum>k<6. B (i, k) * w k) = 0"
  proof (intro allI impI)
    fix i :: nat assume i: "i < 6"
    show "(\<Sum>k<6. B (i, k) * w k) = 0"
    proof (cases "i = c")
      case True
      from h [rule_format, OF i] have "s * (\<Sum>k<6. B (i, k) * w k) = 0"
        by (simp add: scale_row_def True sum_distrib_left mult.assoc)
      with s show ?thesis by simp
    next
      case False
      with h [rule_format, OF i] show ?thesis by (simp add: scale_row_def)
    qed
  qed
  with B k show "w k = 0" unfolding injective66_def by blast
qed

lemma injective_clear:
  assumes B: "injective66 B" and c: "c < 6"
  shows "injective66 (clear_column c f B)"
  unfolding injective66_def
proof (intro allI impI)
  fix w k assume h: "\<forall>i<6. (\<Sum>k<6. clear_column c f B (i, k) * w k) = 0" and k: "k < (6::nat)"
  have hc: "(\<Sum>k<6. B (c, k) * w k) = 0"
    using h [rule_format, OF c] by (simp add: clear_column_def)
  have "\<forall>i<6. (\<Sum>k<6. B (i, k) * w k) = 0"
  proof (intro allI impI)
    fix i :: nat assume i: "i < 6"
    show "(\<Sum>k<6. B (i, k) * w k) = 0"
    proof (cases "i = c")
      case True
      with hc show ?thesis by simp
    next
      case False
      from h [rule_format, OF i] False
      have "(\<Sum>k<6. B (i, k) * w k) - f i * (\<Sum>k<6. B (c, k) * w k) = 0"
        by (simp add: clear_column_def sum_distrib_left sum_subtractf left_diff_distrib mult.assoc)
      with hc show ?thesis by simp
    qed
  qed
  with B k show "w k = 0" unfolding injective66_def by blast
qed

lemma reduced_swap:
  assumes r: "reduced c A" and c: "c < 6" and p: "c \<le> p" "p < 6"
  shows "reduced c (swap_rows c p A)"
  unfolding reduced_def
proof (intro allI impI)
  fix i j :: nat assume i: "i < 6" and j: "j < c"
  have a: "A (i, j) = (if i = j then 1 else 0)" "A (p, j) = 0" "A (c, j) = 0"
    using r i j p c unfolding reduced_def by auto
  show "swap_rows c p A (i, j) = (if i = j then 1 else 0)"
    using a j p by (auto simp: swap_rows_def)
qed

lemma reduced_scale:
  assumes r: "reduced c A" and c: "c < 6"
  shows "reduced c (scale_row c s A)"
  unfolding reduced_def
proof (intro allI impI)
  fix i j :: nat assume i: "i < 6" and j: "j < c"
  have a: "A (i, j) = (if i = j then 1 else 0)" "A (c, j) = 0"
    using r i j c unfolding reduced_def by auto
  show "scale_row c s A (i, j) = (if i = j then 1 else 0)"
    using a j by (auto simp: scale_row_def)
qed

lemma reduced_clear:
  assumes r: "reduced c A" and c: "c < 6" and one: "A (c, c) = 1"
  shows "reduced (Suc c) (clear_column c (\<lambda>i. A (i, c)) A)"
  unfolding reduced_def
proof (intro allI impI)
  fix i j :: nat assume i: "i < 6" and j: "j < Suc c"
  show "clear_column c (\<lambda>i. A (i, c)) A (i, j) = (if i = j then 1 else 0)"
  proof (cases "j = c")
    case True
    then show ?thesis using one by (simp add: clear_column_def)
  next
    case False
    with j have jc: "j < c" by simp
    have a: "A (i, j) = (if i = j then 1 else 0)" "A (c, j) = 0"
      using r i jc c unfolding reduced_def by auto
    show ?thesis unfolding clear_column_def prod.case a using jc by simp
  qed
qed

subsection \<open>The elimination returns the inverse, and fails only on a singular matrix\<close>

lemma sum_assoc6:
  "(\<Sum>k<n. (\<Sum>l<n. b l * m l k) * v k) = (\<Sum>l<n. b l * (\<Sum>k<n. m l k * (v k :: real)))"
proof -
  have "(\<Sum>k<n. (\<Sum>l<n. b l * m l k) * v k) = (\<Sum>k<n. \<Sum>l<n. b l * (m l k * v k))"
    by (simp add: sum_distrib_right mult.assoc)
  also have "\<dots> = (\<Sum>l<n. \<Sum>k<n. b l * (m l k * v k))" by (rule sum.swap)
  also have "\<dots> = (\<Sum>l<n. b l * (\<Sum>k<n. m l k * v k))" by (simp add: sum_distrib_left)
  finally show ?thesis .
qed

lemma gauss_jordan_unfold:
  assumes "c < 6"
  shows "gauss_jordan [c..<6] A B =
    (case find (\<lambda>p. A (p, c) \<noteq> 0) [c..<6] of
       None \<Rightarrow> None
     | Some p \<Rightarrow>
         gauss_jordan [Suc c..<6]
           (clear_column c (\<lambda>i. scale_row c (1 / swap_rows c p A (c, c)) (swap_rows c p A) (i, c))
              (scale_row c (1 / swap_rows c p A (c, c)) (swap_rows c p A)))
           (clear_column c (\<lambda>i. scale_row c (1 / swap_rows c p A (c, c)) (swap_rows c p A) (i, c))
              (scale_row c (1 / swap_rows c p A (c, c)) (swap_rows c p B))))"
proof -
  have e: "[c..<6] = c # [Suc c..<6]" using assms by (rule upt_conv_Cons)
  have "gauss_jordan (c # [Suc c..<6]) A B =
    (case find (\<lambda>p. A (p, c) \<noteq> 0) [c..<6] of
       None \<Rightarrow> None
     | Some p \<Rightarrow>
         gauss_jordan [Suc c..<6]
           (clear_column c (\<lambda>i. scale_row c (1 / swap_rows c p A (c, c)) (swap_rows c p A) (i, c))
              (scale_row c (1 / swap_rows c p A (c, c)) (swap_rows c p A)))
           (clear_column c (\<lambda>i. scale_row c (1 / swap_rows c p A (c, c)) (swap_rows c p A) (i, c))
              (scale_row c (1 / swap_rows c p A (c, c)) (swap_rows c p B))))"
    by (simp only: gauss_jordan.simps Let_def)
  then show ?thesis unfolding e [symmetric] .
qed

lemma step_invariant:
  assumes c: "c < 6" and r: "reduced c A" and m: "product_of A B M" and inj: "injective66 B"
    and f: "find (\<lambda>p. A (p, c) \<noteq> 0) [c..<6] = Some p"
  shows "reduced (Suc c)
           (clear_column c (\<lambda>i. scale_row c (1 / swap_rows c p A (c, c)) (swap_rows c p A) (i, c))
              (scale_row c (1 / swap_rows c p A (c, c)) (swap_rows c p A)))"
    and "product_of
           (clear_column c (\<lambda>i. scale_row c (1 / swap_rows c p A (c, c)) (swap_rows c p A) (i, c))
              (scale_row c (1 / swap_rows c p A (c, c)) (swap_rows c p A)))
           (clear_column c (\<lambda>i. scale_row c (1 / swap_rows c p A (c, c)) (swap_rows c p A) (i, c))
              (scale_row c (1 / swap_rows c p A (c, c)) (swap_rows c p B))) M"
    and "injective66
           (clear_column c (\<lambda>i. scale_row c (1 / swap_rows c p A (c, c)) (swap_rows c p A) (i, c))
              (scale_row c (1 / swap_rows c p A (c, c)) (swap_rows c p B)))"
proof -
  from find_pivot_Some [OF f] have p: "c \<le> p" "p < 6" and nz: "A (p, c) \<noteq> 0" by simp_all
  let ?s = "1 / swap_rows c p A (c, c)"
  have piv: "swap_rows c p A (c, c) = A (p, c)" by (simp add: swap_rows_def)
  have s: "?s \<noteq> 0" using nz by (simp add: piv)
  have one: "scale_row c ?s (swap_rows c p A) (c, c) = 1"
    using nz by (simp add: scale_row_def piv)
  show "reduced (Suc c)
           (clear_column c (\<lambda>i. scale_row c ?s (swap_rows c p A) (i, c))
              (scale_row c ?s (swap_rows c p A)))"
    by (intro reduced_clear reduced_scale reduced_swap r c p one)
  show "product_of
           (clear_column c (\<lambda>i. scale_row c ?s (swap_rows c p A) (i, c))
              (scale_row c ?s (swap_rows c p A)))
           (clear_column c (\<lambda>i. scale_row c ?s (swap_rows c p A) (i, c))
              (scale_row c ?s (swap_rows c p B))) M"
    by (intro product_clear product_scale product_swap m c p)
  show "injective66
           (clear_column c (\<lambda>i. scale_row c ?s (swap_rows c p A) (i, c))
              (scale_row c ?s (swap_rows c p B)))"
    by (intro injective_clear injective_scale injective_swap inj c p s)
qed

lemma gauss_jordan_invariant:
  assumes "gauss_jordan [c..<6] A B = Some (A', B')" "c \<le> 6"
    "reduced c A" "product_of A B M" "injective66 B"
  shows "reduced 6 A' \<and> product_of A' B' M \<and> injective66 B'"
  using assms
proof (induction "6 - c" arbitrary: c A B)
  case 0
  then have "c = 6" by simp
  with 0 show ?case by simp
next
  case (Suc n)
  then have c: "c < 6" by simp
  from Suc.prems(1) obtain p where f: "find (\<lambda>p. A (p, c) \<noteq> 0) [c..<6] = Some p"
    unfolding gauss_jordan_unfold [OF c] by (auto split: option.splits)
  show ?case
  proof (rule Suc.hyps(1))
    show "n = 6 - Suc c" using Suc.hyps(2) by simp
    show "Suc c \<le> 6" using c by simp
    show "gauss_jordan [Suc c..<6]
           (clear_column c (\<lambda>i. scale_row c (1 / swap_rows c p A (c, c)) (swap_rows c p A) (i, c))
              (scale_row c (1 / swap_rows c p A (c, c)) (swap_rows c p A)))
           (clear_column c (\<lambda>i. scale_row c (1 / swap_rows c p A (c, c)) (swap_rows c p A) (i, c))
              (scale_row c (1 / swap_rows c p A (c, c)) (swap_rows c p B))) = Some (A', B')"
      using Suc.prems(1) unfolding gauss_jordan_unfold [OF c] f by simp
  qed (rule step_invariant [OF c Suc.prems(3) Suc.prems(4) Suc.prems(5) f])+
qed

text \<open>
  When column \<open>c\<close> has no pivot, the vector with 1 at \<open>c\<close> and the negated column above
  it is mapped to 0 by the reduced matrix, hence by \<open>M\<close>; so \<open>M\<close> has no inverse.
\<close>

lemma no_pivot_singular:
  assumes c: "c < 6" and r: "reduced c A" and m: "product_of A B M" and inj: "injective66 B"
    and none: "find (\<lambda>p. A (p, c) \<noteq> 0) [c..<6] = None"
    and X: "inverse_of M X"
  shows False
proof -
  define v where "v k = (if k = c then 1 else if k < c then - A (k, c) else 0)" for k
  define w where "w l = (\<Sum>k<6. M (l, k) * v k)" for l
  have Av: "(\<Sum>k<6. A (i, k) * v k) = 0" if i: "i < 6" for i
  proof -
    have t: "A (i, k) * v k
        = (if k = c then A (i, c) else 0) + (if k = i then (if i < c then - A (i, c) else 0) else 0)"
      if "k \<in> {..<6}" for k
    proof -
      have "A (i, k) = (if i = k then 1 else 0)" if "k < c"
        using r i that unfolding reduced_def by simp
      then show ?thesis by (auto simp: v_def)
    qed
    have "(\<Sum>k<6. A (i, k) * v k)
        = (\<Sum>k<6. (if k = c then A (i, c) else 0)
              + (if k = i then (if i < c then - A (i, c) else 0) else 0))"
      by (rule sum.cong [OF refl t])
    also have "\<dots> = A (i, c) + (if i < c then - A (i, c) else 0)"
      using c i by (simp add: sum.distrib)
    also have "\<dots> = 0"
    proof (cases "i < c")
      case True
      then show ?thesis by simp
    next
      case False
      then have "A (i, c) = 0" using find_pivot_None [OF none _ i] by simp
      with False show ?thesis by simp
    qed
    finally show ?thesis .
  qed
  have Bw: "(\<Sum>l<6. B (i, l) * w l) = 0" if i: "i < 6" for i
  proof -
    have "(\<Sum>k<6. A (i, k) * v k) = (\<Sum>k<6. (\<Sum>l<6. B (i, l) * M (l, k)) * v k)"
      using m i unfolding product_of_def mat_mul_def by simp
    also have "\<dots> = (\<Sum>l<6. B (i, l) * w l)"
      unfolding w_def by (rule sum_assoc6)
    finally show ?thesis using Av [OF i] by simp
  qed
  have w0: "w l = 0" if "l < 6" for l
    using inj Bw that unfolding injective66_def by blast
  have "v c = (\<Sum>k<6. (if c = k then 1 else 0) * v k)"
    using c by (simp only: sum_delta6)
  also have "\<dots> = (\<Sum>k<6. (\<Sum>l<6. X (c, l) * M (l, k)) * v k)"
  proof (rule sum.cong [OF refl])
    fix k assume "k \<in> {..<6::nat}"
    then have "mat_mul X M (c, k) = identity6 (c, k)"
      using X c unfolding inverse_of_def by simp
    then show "(if c = k then 1 else 0) * v k = (\<Sum>l<6. X (c, l) * M (l, k)) * v k"
      using c by (simp add: mat_mul_def identity6_def)
  qed
  also have "\<dots> = (\<Sum>l<6. X (c, l) * w l)"
    unfolding w_def by (rule sum_assoc6)
  also have "\<dots> = 0" using w0 by simp
  finally show False by (simp add: v_def)
qed

lemma gauss_jordan_total:
  assumes "inverse_of M X" "c \<le> 6" "reduced c A" "product_of A B M" "injective66 B"
  shows "gauss_jordan [c..<6] A B \<noteq> None"
  using assms(2-)
proof (induction "6 - c" arbitrary: c A B)
  case 0
  then have "c = 6" by simp
  then show ?case by simp
next
  case (Suc n)
  then have c: "c < 6" by simp
  show ?case
  proof (cases "find (\<lambda>p. A (p, c) \<noteq> 0) [c..<6]")
    case None
    from no_pivot_singular [OF c Suc.prems(2) Suc.prems(3) Suc.prems(4) None assms(1)]
    show ?thesis ..
  next
    case (Some p)
    have "gauss_jordan [Suc c..<6]
           (clear_column c (\<lambda>i. scale_row c (1 / swap_rows c p A (c, c)) (swap_rows c p A) (i, c))
              (scale_row c (1 / swap_rows c p A (c, c)) (swap_rows c p A)))
           (clear_column c (\<lambda>i. scale_row c (1 / swap_rows c p A (c, c)) (swap_rows c p A) (i, c))
              (scale_row c (1 / swap_rows c p A (c, c)) (swap_rows c p B))) \<noteq> None"
    proof (rule Suc.hyps(1))
      show "n = 6 - Suc c" using Suc.hyps(2) by simp
      show "Suc c \<le> 6" using c by simp
    qed (rule step_invariant [OF c Suc.prems(2) Suc.prems(3) Suc.prems(4) Some])+
    then show ?thesis unfolding gauss_jordan_unfold [OF c] Some by simp
  qed
qed

lemma start_invariant:
  "reduced 0 M" "product_of M identity6 M" "injective66 identity6"
proof -
  show "reduced 0 M" by (simp add: reduced_def)
  show "product_of M identity6 M"
    unfolding product_of_def mat_mul_def identity6_def
    by (simp add: sum_delta6 if_distrib [of "\<lambda>x. x * _"] cong: if_cong)
  show "injective66 identity6"
    unfolding injective66_def identity6_def
    by (simp add: sum_delta6 if_distrib [of "\<lambda>x. x * _"] cong: if_cong)
qed

lemma linalg_inv_sound:
  assumes "linalg_inv M = Inr X"
  shows "inverse_of M X"
proof -
  from assms obtain A where gj: "gauss_jordan [0..<6] M identity6 = Some (A, X)"
    by (auto simp: linalg_inv_def split: option.splits)
  from gauss_jordan_invariant [OF gj _ start_invariant]
  have r: "reduced 6 A" and m: "product_of A X M" and inj: "injective66 X" by simp_all
  have left: "mat_mul X M (i, j) = identity6 (i, j)" if "i < 6" "j < 6" for i j
    using r m that unfolding reduced_def product_of_def identity6_def by simp
  have right: "mat_mul M X (i, j) = identity6 (i, j)" if i: "i < 6" and j: "j < 6" for i j
  proof -
    define w where "w l = (\<Sum>k<6. M (l, k) * X (k, j)) - (if l = j then 1 else 0)" for l
    have "(\<Sum>l<6. X (i', l) * w l) = 0" if i': "i' < 6" for i'
    proof -
      have "(\<Sum>l<6. X (i', l) * w l)
          = (\<Sum>l<6. X (i', l) * (\<Sum>k<6. M (l, k) * X (k, j))) - (\<Sum>l<6. X (i', l) * (if l = j then 1 else 0))"
        by (simp add: w_def right_diff_distrib sum_subtractf)
      also have "(\<Sum>l<6. X (i', l) * (\<Sum>k<6. M (l, k) * X (k, j)))
          = (\<Sum>k<6. (\<Sum>l<6. X (i', l) * M (l, k)) * X (k, j))"
        by (rule sum_assoc6 [symmetric])
      also have "\<dots> = (\<Sum>k<6. (if i' = k then 1 else 0) * X (k, j))"
      proof (rule sum.cong [OF refl])
        fix k assume "k \<in> {..<6::nat}"
        then have "mat_mul X M (i', k) = identity6 (i', k)" using left i' by simp
        then show "(\<Sum>l<6. X (i', l) * M (l, k)) * X (k, j) = (if i' = k then 1 else 0) * X (k, j)"
          using i' by (simp add: mat_mul_def identity6_def)
      qed
      also have "\<dots> = X (i', j)" using i' by (rule sum_delta6)
      also have "(\<Sum>l<6. X (i', l) * (if l = j then 1 else 0)) = X (i', j)"
        using j by (rule sum_delta6')
      finally show ?thesis by simp
    qed
    then have "w i = 0" using inj i unfolding injective66_def by blast
    then show ?thesis using i by (simp add: w_def mat_mul_def identity6_def)
  qed
  show ?thesis unfolding inverse_of_def using left right by blast
qed

lemma linalg_inv_complete:
  assumes "inverse_of M X"
  shows "\<exists>Y. linalg_inv M = Inr Y"
proof -
  have "gauss_jordan [0..<6] M identity6 \<noteq> None"
    by (rule gauss_jordan_total [OF assms _ start_invariant]) simp
  then show ?thesis by (auto simp: linalg_inv_def split: option.splits)
qed

lemma inverse_unique:
  assumes X: "inverse_of M X" and Y: "inverse_of M Y" and i: "i < 6" and j: "j < 6"
  shows "X (i, j) = Y (i, j)"
proof -
  have "X (i, j) = (\<Sum>l<6. X (i, l) * (if l = j then 1 else 0))"
    using j by (simp only: sum_delta6')
  also have "\<dots> = (\<Sum>l<6. X (i, l) * (\<Sum>k<6. M (l, k) * Y (k, j)))"
  proof (rule sum.cong [OF refl])
    fix l assume "l \<in> {..<6::nat}"
    then have "mat_mul M Y (l, j) = identity6 (l, j)" using Y j unfolding inverse_of_def by simp
    then show "X (i, l) * (if l = j then 1 else 0) = X (i, l) * (\<Sum>k<6. M (l, k) * Y (k, j))"
      using \<open>l \<in> {..<6}\<close> by (simp add: mat_mul_def identity6_def)
  qed
  also have "\<dots> = (\<Sum>k<6. (\<Sum>l<6. X (i, l) * M (l, k)) * Y (k, j))"
    by (rule sum_assoc6 [symmetric])
  also have "\<dots> = (\<Sum>k<6. (if i = k then 1 else 0) * Y (k, j))"
  proof (rule sum.cong [OF refl])
    fix k assume "k \<in> {..<6::nat}"
    then have "mat_mul X M (i, k) = identity6 (i, k)" using X i unfolding inverse_of_def by simp
    then show "(\<Sum>l<6. X (i, l) * M (l, k)) * Y (k, j) = (if i = k then 1 else 0) * Y (k, j)"
      using i by (simp add: mat_mul_def identity6_def)
  qed
  also have "\<dots> = Y (i, j)" using i by (rule sum_delta6)
  finally show ?thesis .
qed

text \<open>
  \<^verbatim>\<open>np.linalg.inv\<close> as modelled returns the inverse whenever there is one.
\<close>

lemma linalg_inv_inverse:
  assumes "inverse_of M Z"
  shows "\<exists>X. linalg_inv M = Inr X \<and> inverse_of M X \<and> (\<forall>i<6. \<forall>j<6. X (i, j) = Z (i, j))"
proof -
  from linalg_inv_complete [OF assms] obtain X where X: "linalg_inv M = Inr X" by blast
  have s: "inverse_of M X" by (rule linalg_inv_sound [OF X])
  have "\<forall>i<6. \<forall>j<6. X (i, j) = Z (i, j)" using inverse_unique [OF s assms] by blast
  with X s show ?thesis by blast
qed

section \<open>Properties of inverse66\<close>

lemma lt6_cases: "i < (6::nat) \<Longrightarrow> i = 0 \<or> i = 1 \<or> i = 2 \<or> i = 3 \<or> i = 4 \<or> i = 5"
  by arith

lemma W_entry:
  assumes "i < 6" "j < 6"
  shows "(identity6((3, 3) := 0.5, (4, 4) := 0.5, (5, 5) := 0.5)) (i, j)
           = (if i = j then 1 else 0) * voigt_weight i"
  using lt6_cases [OF assms(1)] lt6_cases [OF assms(2)]
  by (elim disjE; simp add: identity6_def voigt_weight_def)

lemma voigt_weight_nonzero: "voigt_weight i \<noteq> 0"
  by (simp add: voigt_weight_def)

lemma einsum_diagonal:
  assumes i: "i < 6" and l: "l < 6"
  shows "einsum_ij_jk_kl (identity6((3, 3) := 0.5, (4, 4) := 0.5, (5, 5) := 0.5)) X
           (identity6((3, 3) := 0.5, (4, 4) := 0.5, (5, 5) := 0.5)) (i, l)
         = voigt_weight i * X (i, l) * voigt_weight l"
proof -
  let ?W = "identity6((3, 3) := 0.5, (4, 4) := 0.5, (5, 5) := 0.5)"
  have inner: "(\<Sum>k<6. ?W (i, j) * X (j, k) * ?W (k, l)) = ?W (i, j) * X (j, l) * voigt_weight l" for j
  proof -
    have "(\<Sum>k<6. ?W (i, j) * X (j, k) * ?W (k, l))
        = (\<Sum>k<6. (?W (i, j) * X (j, k) * voigt_weight l) * (if k = l then 1 else 0))"
    proof (rule sum.cong [OF refl])
      fix k assume "k \<in> {..<6::nat}"
      then have "?W (k, l) = (if k = l then 1 else 0) * voigt_weight k"
        using l by (intro W_entry) simp_all
      then show "?W (i, j) * X (j, k) * ?W (k, l)
          = (?W (i, j) * X (j, k) * voigt_weight l) * (if k = l then 1 else 0)"
        by simp
    qed
    also have "\<dots> = ?W (i, j) * X (j, l) * voigt_weight l" using l by (rule sum_delta6')
    finally show ?thesis .
  qed
  have "einsum_ij_jk_kl ?W X ?W (i, l) = (\<Sum>j<6. ?W (i, j) * X (j, l) * voigt_weight l)"
    unfolding einsum_ij_jk_kl_def prod.case inner ..
  also have "\<dots> = (\<Sum>j<6. (if i = j then 1 else 0) * (voigt_weight i * X (j, l) * voigt_weight l))"
  proof (rule sum.cong [OF refl])
    fix j assume "j \<in> {..<6::nat}"
    then have "?W (i, j) = (if i = j then 1 else 0) * voigt_weight i"
      using i by (intro W_entry) simp_all
    then show "?W (i, j) * X (j, l) * voigt_weight l
        = (if i = j then 1 else 0) * (voigt_weight i * X (j, l) * voigt_weight l)"
      by simp
  qed
  also have "\<dots> = voigt_weight i * X (i, l) * voigt_weight l" using i by (rule sum_delta6)
  finally show ?thesis .
qed

lemma inverse66_entries:
  assumes "inverse_of M Z"
  shows "\<exists>S. inverse66 M = Inr S
           \<and> (\<forall>i<6. \<forall>j<6. S (i, j) = voigt_weight i * Z (i, j) * voigt_weight j)"
proof -
  from linalg_inv_inverse [OF assms] obtain X where X: "linalg_inv M = Inr X"
    and e: "\<forall>i<6. \<forall>j<6. X (i, j) = Z (i, j)"
    by blast
  let ?W = "identity6((3, 3) := 0.5, (4, 4) := 0.5, (5, 5) := 0.5)"
  have "inverse66 M = Inr (einsum_ij_jk_kl ?W X ?W)"
    by (simp add: inverse66_def X Let_def)
  moreover have "einsum_ij_jk_kl ?W X ?W (i, j) = voigt_weight i * Z (i, j) * voigt_weight j"
    if "i < 6" "j < 6" for i j
    using einsum_diagonal [OF that, of X] e that by simp
  ultimately show ?thesis by blast
qed

lemma inverse66_singular:
  assumes "\<not> invertible66 M"
  shows "inverse66 M = Inl LinAlgError"
proof (cases "linalg_inv M")
  case (Inl e)
  then show ?thesis
    by (cases e) (auto simp: inverse66_def linalg_inv_def split: option.splits)
next
  case (Inr X)
  from linalg_inv_sound [OF Inr] assms show ?thesis unfolding invertible66_def by blast
qed

text \<open>
  The Voigt inverse \<open>S\<close> of an invertible \<open>M\<close> is invertible, with inverse
  \<open>M[i,j] / (w i w j)\<close>.
\<close>

lemma rescaled_inverse:
  assumes Z: "inverse_of M Z"
    and S': "\<forall>i<6. \<forall>j<6. S (i, j) = voigt_weight i * Z (i, j) * voigt_weight j"
  shows "inverse_of S (\<lambda>(i, j). M (i, j) / (voigt_weight i * voigt_weight j))"
  unfolding inverse_of_def
proof (intro allI impI conjI)
  fix i j :: nat assume i: "i < 6" and j: "j < 6"
  have S: "S (i, j) = voigt_weight i * Z (i, j) * voigt_weight j" if "i < 6" "j < 6" for i j
    using S' that by blast
  have a: "(\<Sum>k<6. Z (i, k) * M (k, j)) = identity6 (i, j)"
    and b: "(\<Sum>k<6. M (i, k) * Z (k, j)) = identity6 (i, j)"
    using Z i j unfolding inverse_of_def mat_mul_def by simp_all
  have "mat_mul S (\<lambda>(i, j). M (i, j) / (voigt_weight i * voigt_weight j)) (i, j)
      = (\<Sum>k<6. (voigt_weight i / voigt_weight j) * (Z (i, k) * M (k, j)))"
    unfolding mat_mul_def prod.case
  proof (rule sum.cong [OF refl])
    fix k assume "k \<in> {..<6::nat}"
    then have "S (i, k) = voigt_weight i * Z (i, k) * voigt_weight k" using i by (intro S) simp_all
    then show "S (i, k) * (M (k, j) / (voigt_weight k * voigt_weight j))
        = (voigt_weight i / voigt_weight j) * (Z (i, k) * M (k, j))"
      using voigt_weight_nonzero [of k] by (simp add: field_simps)
  qed
  also have "\<dots> = (voigt_weight i / voigt_weight j) * identity6 (i, j)"
    by (simp only: sum_distrib_left [symmetric] a)
  also have "\<dots> = identity6 (i, j)"
    using voigt_weight_nonzero [of j] voigt_weight_nonzero [of i] by (simp add: identity6_def)
  finally show "mat_mul S (\<lambda>(i, j). M (i, j) / (voigt_weight i * voigt_weight j)) (i, j)
      = identity6 (i, j)" .
  have "mat_mul (\<lambda>(i, j). M (i, j) / (voigt_weight i * voigt_weight j)) S (i, j)
      = (\<Sum>k<6. (voigt_weight j / voigt_weight i) * (M (i, k) * Z (k, j)))"
    unfolding mat_mul_def prod.case
  proof (rule sum.cong [OF refl])
    fix k assume "k \<in> {..<6::nat}"
    then have "S (k, j) = voigt_weight k * Z (k, j) * voigt_weight j" using j by (intro S) simp_all
    then show "M (i, k) / (voigt_weight i * voigt_weight k) * S (k, j)
        = (voigt_weight j / voigt_weight i) * (M (i, k) * Z (k, j))"
      using voigt_weight_nonzero [of k] by (simp add: field_simps)
  qed
  also have "\<dots> = (voigt_weight j / voigt_weight i) * identity6 (i, j)"
    by (simp only: sum_distrib_left [symmetric] b)
  also have "\<dots> = identity6 (i, j)"
    using voigt_weight_nonzero [of j] voigt_weight_nonzero [of i] by (simp add: identity6_def)
  finally show "mat_mul (\<lambda>(i, j). M (i, j) / (voigt_weight i * voigt_weight j)) S (i, j)
      = identity6 (i, j)" .
qed

text \<open>
  Claim C3. For every invertible 6x6 matrix \<open>M\<close>, \<^verbatim>\<open>inverse66\<close> returns a matrix \<open>S\<close>,
  \<^verbatim>\<open>inverse66\<close> applied to \<open>S\<close> returns a matrix again, and that matrix is \<open>M\<close>: every entry
  at an index pair in range is the entry of \<open>M\<close>. Floats are the reals here, so the
  equality is exact.
\<close>

theorem inverse66_round_trip:
  assumes "invertible66 M"
  shows "\<exists>S S'. inverse66 M = Inr S \<and> inverse66 S = Inr S'
           \<and> (\<forall>i<6. \<forall>j<6. S' (i, j) = M (i, j))"
proof -
  from assms obtain Z where Z: "inverse_of M Z" unfolding invertible66_def by blast
  from inverse66_entries [OF Z] obtain S where S: "inverse66 M = Inr S"
    and Se: "\<forall>i<6. \<forall>j<6. S (i, j) = voigt_weight i * Z (i, j) * voigt_weight j"
    by blast
  let ?Z' = "\<lambda>(i, j). M (i, j) / (voigt_weight i * voigt_weight j)"
  have "inverse_of S ?Z'" by (rule rescaled_inverse [OF Z Se])
  from inverse66_entries [OF this] obtain S' where S': "inverse66 S = Inr S'"
    and S'e: "\<forall>i<6. \<forall>j<6. S' (i, j) = voigt_weight i * ?Z' (i, j) * voigt_weight j"
    by blast
  have "S' (i, j) = M (i, j)" if "i < 6" "j < 6" for i j
    using S'e that voigt_weight_nonzero [of i] voigt_weight_nonzero [of j] by simp
  with S S' show ?thesis by blast
qed

lemma sum6: "(\<Sum>k<6. f k) = f 0 + f 1 + f 2 + f 3 + f 4 + (f 5 :: real)" for f :: "nat \<Rightarrow> real"
proof -
  have "{..<6::nat} = {0, 1, 2, 3, 4, 5}" by auto
  then show ?thesis by simp
qed

lemma shear66_inverse: "inverse_of shear66 (identity6((0, 1) := - 2))"
  unfolding inverse_of_def
proof (intro allI impI)
  fix i j :: nat assume "i < 6" "j < 6"
  from lt6_cases [OF this(1)] lt6_cases [OF this(2)]
  show "mat_mul shear66 (identity6((0, 1) := - 2)) (i, j) = identity6 (i, j)
      \<and> mat_mul (identity6((0, 1) := - 2)) shear66 (i, j) = identity6 (i, j)"
    by (elim disjE; simp add: mat_mul_def sum6 shear66_def identity6_def)
qed

theorem inverse66_round_trip_witness:
  "invertible66 shear66
   \<and> (\<exists>S S'. inverse66 shear66 = Inr S \<and> inverse66 S = Inr S'
         \<and> S' (0, 1) = 2 \<and> S' (1, 0) = 0 \<and> S' (3, 3) = 1)"
proof -
  have i: "invertible66 shear66" unfolding invertible66_def using shear66_inverse by blast
  from inverse66_round_trip [OF i] obtain S S' where
    "inverse66 shear66 = Inr S" "inverse66 S = Inr S'" and e: "\<forall>i<6. \<forall>j<6. S' (i, j) = shear66 (i, j)"
    by blast
  moreover have "S' (0, 1) = 2 \<and> S' (1, 0) = 0 \<and> S' (3, 3) = 1"
    using e by (simp add: shear66_def identity6_def)
  ultimately show ?thesis using i by blast
qed

section \<open>The directional modulus of an isotropic tensor\<close>

lemma sum3: "(\<Sum>k<3. f k) = f 0 + f 1 + (f 2 :: real)" for f :: "nat \<Rightarrow> real"
proof -
  have "{..<3::nat} = {0, 1, 2}" by auto
  then show ?thesis by simp
qed

lemma vec_nth_simps:
  "vec_nth (x, y, z) 0 = x" "vec_nth (x, y, z) (Suc 0) = y" "vec_nth (x, y, z) 2 = z"
  by (simp_all add: vec_nth_def)

lemma voigt_row_simps:
  "voigt_row 0 0 = 0" "voigt_row (Suc 0) (Suc 0) = Suc 0" "voigt_row 2 2 = 2"
  "voigt_row (Suc 0) 2 = 3" "voigt_row 2 (Suc 0) = 3" "voigt_row 0 2 = 4" "voigt_row 2 0 = 4"
  "voigt_row 0 (Suc 0) = 5" "voigt_row (Suc 0) 0 = 5"
  by (simp_all add: voigt_row_def)

text \<open>
  The contraction of the expanded tensor of a matrix of the isotropic pattern: \<open>s11\<close> on
  the leading diagonal, \<open>s12\<close> off it in the leading block, \<open>s44\<close> on the trailing
  diagonal.
\<close>

lemma contraction_pattern:
  assumes S: "\<And>p q. p < 6 \<Longrightarrow> q < 6 \<Longrightarrow>
      S (p, q) = (if p = q \<and> p < 3 then s11 else if p < 3 \<and> q < 3 then s12
                  else if p = q then s44 else 0)"
  shows "contraction (C66toC3333 S) (x, y, z)
       = s11 * (x * x * x * x + y * y * y * y + z * z * z * z)
         + (2 * s12 + 4 * s44) * (x * x * y * y + y * y * z * z + x * x * z * z)"
proof -
  have T: "C66toC3333 S (i, j, k, l) = S (voigt_row i j, voigt_row k l)"
    if "i < 3" "j < 3" "k < 3" "l < 3" for i j k l
    using that by (rule C66toC3333_entry)
  have "contraction (C66toC3333 S) (x, y, z)
      = x * x * x * x * s11 + x * x * y * y * s12 + x * x * z * z * s12
      + y * y * x * x * s12 + y * y * y * y * s11 + y * y * z * z * s12
      + z * z * x * x * s12 + z * z * y * y * s12 + z * z * z * z * s11
      + 4 * (y * z * y * z * s44) + 4 * (x * z * x * z * s44) + 4 * (x * y * x * y * s44)"
    unfolding contraction_def sum3
    by (simp add: vec_nth_simps T voigt_row_simps S)
  also have "\<dots> = s11 * (x * x * x * x + y * y * y * y + z * z * z * z)
         + (2 * s12 + 4 * s44) * (x * x * y * y + y * y * z * z + x * x * z * z)"
    by (simp add: algebra_simps)
  finally show ?thesis .
qed

lemma block_isotropic_pattern:
  "block_isotropic k zeros66 = isotropic_pattern (c11 k) (c12 k) (0.5 * (c11 k - c12 k))"
proof (rule ext)
  fix x :: "nat \<times> nat"
  obtain i j where x: "x = (i, j)" by (cases x)
  show "block_isotropic k zeros66 x = isotropic_pattern (c11 k) (c12 k) (0.5 * (c11 k - c12 k)) x"
    unfolding x isotropic_pattern_def prod.case by (rule iso_entries)
qed

lemma pattern_entries:
  "isotropic_pattern a b m (0, 0) = a" "isotropic_pattern a b m (0, 1) = b"
  "isotropic_pattern a b m (0, 2) = b" "isotropic_pattern a b m (0, 3) = 0"
  "isotropic_pattern a b m (0, 4) = 0" "isotropic_pattern a b m (0, 5) = 0"
  "isotropic_pattern a b m (1, 0) = b" "isotropic_pattern a b m (1, 1) = a"
  "isotropic_pattern a b m (1, 2) = b" "isotropic_pattern a b m (1, 3) = 0"
  "isotropic_pattern a b m (1, 4) = 0" "isotropic_pattern a b m (1, 5) = 0"
  "isotropic_pattern a b m (2, 0) = b" "isotropic_pattern a b m (2, 1) = b"
  "isotropic_pattern a b m (2, 2) = a" "isotropic_pattern a b m (2, 3) = 0"
  "isotropic_pattern a b m (2, 4) = 0" "isotropic_pattern a b m (2, 5) = 0"
  "isotropic_pattern a b m (3, 0) = 0" "isotropic_pattern a b m (3, 1) = 0"
  "isotropic_pattern a b m (3, 2) = 0" "isotropic_pattern a b m (3, 3) = m"
  "isotropic_pattern a b m (3, 4) = 0" "isotropic_pattern a b m (3, 5) = 0"
  "isotropic_pattern a b m (4, 0) = 0" "isotropic_pattern a b m (4, 1) = 0"
  "isotropic_pattern a b m (4, 2) = 0" "isotropic_pattern a b m (4, 3) = 0"
  "isotropic_pattern a b m (4, 4) = m" "isotropic_pattern a b m (4, 5) = 0"
  "isotropic_pattern a b m (5, 0) = 0" "isotropic_pattern a b m (5, 1) = 0"
  "isotropic_pattern a b m (5, 2) = 0" "isotropic_pattern a b m (5, 3) = 0"
  "isotropic_pattern a b m (5, 4) = 0" "isotropic_pattern a b m (5, 5) = m"
  by (simp_all add: isotropic_pattern_def)

lemma identity6_entries:
  "identity6 (i, i) = (if i < 6 then 1 else 0)" "i \<noteq> j \<Longrightarrow> identity6 (i, j) = 0"
  by (simp_all add: identity6_def)

text \<open>
  The product of two matrices of the pattern is of the pattern; it is the identity when
  the three equations hold.
\<close>

lemma pattern_product:
  assumes "i < 6" "j < 6"
  shows "mat_mul (isotropic_pattern a b m) (isotropic_pattern p q r) (i, j)
       = isotropic_pattern (a * p + 2 * (b * q)) (a * q + b * p + b * q) (m * r) (i, j)"
  using lt6_cases [OF assms(1)] lt6_cases [OF assms(2)]
  by (elim disjE; simp only: mat_mul_def prod.case sum6 pattern_entries; simp)

lemma pattern_identity:
  assumes "i < 6" "j < 6"
  shows "isotropic_pattern 1 0 1 (i, j) = identity6 (i, j)"
  using assms by (simp add: isotropic_pattern_def identity6_def)

lemma pattern_inverse:
  assumes "a * p + 2 * (b * q) = 1" "a * q + b * p + b * q = 0" "m * r = 1"
  shows "inverse_of (isotropic_pattern a b m) (isotropic_pattern p q r)"
  unfolding inverse_of_def
proof (intro allI impI conjI)
  fix i j :: nat assume i: "i < 6" and j: "j < 6"
  show "mat_mul (isotropic_pattern a b m) (isotropic_pattern p q r) (i, j) = identity6 (i, j)"
    by (simp only: pattern_product [OF i j] assms pattern_identity [OF i j])
  have c: "p * a + 2 * (q * b) = 1" "p * b + q * a + q * b = 0" "r * m = 1"
    using assms by (simp_all add: mult.commute add.commute)
  show "mat_mul (isotropic_pattern p q r) (isotropic_pattern a b m) (i, j) = identity6 (i, j)"
    by (simp only: pattern_product [OF i j] c pattern_identity [OF i j])
qed

lemma pattern_nonsingular:
  assumes "inverse_of (isotropic_pattern a b m) Z"
  shows "m \<noteq> 0 \<and> a + 2 * b \<noteq> 0"
proof -
  have e: "mat_mul Z (isotropic_pattern a b m) (i, j) = identity6 (i, j)" if "i < 6" "j < 6" for i j
    using assms that unfolding inverse_of_def by simp
  have "mat_mul Z (isotropic_pattern a b m) (3, 3) = Z (3, 3) * m"
    by (simp only: mat_mul_def prod.case sum6 pattern_entries; simp)
  then have "Z (3, 3) * m = 1"
    using e [of 3 3] by (simp add: identity6_def)
  then have m: "m \<noteq> 0" by auto
  have "mat_mul Z (isotropic_pattern a b m) (0, 0) = Z (0, 0) * a + Z (0, 1) * b + Z (0, 2) * b"
    "mat_mul Z (isotropic_pattern a b m) (0, 1) = Z (0, 0) * b + Z (0, 1) * a + Z (0, 2) * b"
    "mat_mul Z (isotropic_pattern a b m) (0, 2) = Z (0, 0) * b + Z (0, 1) * b + Z (0, 2) * a"
    by (simp_all only: mat_mul_def prod.case sum6 pattern_entries; simp)+
  then have "Z (0, 0) * a + Z (0, 1) * b + Z (0, 2) * b = 1"
    "Z (0, 0) * b + Z (0, 1) * a + Z (0, 2) * b = 0"
    "Z (0, 0) * b + Z (0, 1) * b + Z (0, 2) * a = 0"
    using e [of 0 0] e [of 0 1] e [of 0 2]
    by (simp_all add: identity6_def)
  then have "(Z (0, 0) + Z (0, 1) + Z (0, 2)) * (a + 2 * b) = 1"
    by (simp add: algebra_simps)
  then have "a + 2 * b \<noteq> 0" by auto
  with m show ?thesis by simp
qed

lemma unit_contraction:
  assumes S: "\<And>p q. p < 6 \<Longrightarrow> q < 6 \<Longrightarrow>
      S (p, q) = (if p = q \<and> p < 3 then s11 else if p < 3 \<and> q < 3 then s12
                  else if p = q then s44 else 0)"
    and iso: "2 * s12 + 4 * s44 = 2 * s11"
    and u: "unit_vector d"
  shows "contraction (C66toC3333 S) d = s11"
proof -
  obtain x y z where d: "d = (x, y, z)" by (cases d)
  from u have n: "x * x + y * y + z * z = 1" by (simp add: unit_vector_def d)
  have "contraction (C66toC3333 S) (x, y, z)
      = s11 * (x * x * x * x + y * y * y * y + z * z * z * z)
        + (2 * s12 + 4 * s44) * (x * x * y * y + y * y * z * z + x * x * z * z)"
    by (rule contraction_pattern [OF S])
  also have "\<dots> = s11 * ((x * x + y * y + z * z) * (x * x + y * y + z * z))"
    unfolding iso by (simp add: algebra_simps)
  also have "\<dots> = s11" by (simp only: n mult_1_right)
  finally show ?thesis by (simp only: d)
qed

text \<open>
  Claim C2. For a stiffness matrix built with symmetry \<^verbatim>\<open>'isotropic'\<close> that is invertible,
  \<^verbatim>\<open>inverse66\<close> returns a compliance matrix, and \<^verbatim>\<open>E_hkl3333\<close> on its expansion gives the
  same value for any two unit directions; the value is \<open>(c11 - c12) (c11 + 2 c12) / (c11 + c12)\<close>,
  and non-finite when \<open>c11 + c12 = 0\<close>. Floats are the reals here.
\<close>

theorem isotropic_modulus_constant:
  assumes M: "C66fromSymmetry k (Some ''isotropic'') = Inr M" and inv: "invertible66 M"
    and d1: "unit_vector d1" and d2: "unit_vector d2"
  shows "\<exists>S. inverse66 M = Inr S
           \<and> E_hkl3333 (C66toC3333 S) d1 = E_hkl3333 (C66toC3333 S) d2
           \<and> E_hkl3333 (C66toC3333 S) d1
               = (if c11 k + c12 k = 0 then None
                  else Some ((c11 k - c12 k) * (c11 k + 2 * c12 k) / (c11 k + c12 k)))"
proof -
  let ?a = "c11 k" and ?b = "c12 k"
  define D where "D = (?a - ?b) * (?a + 2 * ?b)"
  define p where "p = (?a + ?b) / D"
  define q where "q = - ?b / D"
  define r where "r = 1 / (0.5 * (?a - ?b))"
  have Mp: "M = isotropic_pattern ?a ?b (0.5 * (?a - ?b))"
    using M by (simp add: iso_reduce block_isotropic_pattern)
  from inv obtain Z where Z: "inverse_of M Z" unfolding invertible66_def by blast
  from pattern_nonsingular [OF Z [unfolded Mp]]
  have ab: "?a - ?b \<noteq> 0" and a2b: "?a + 2 * ?b \<noteq> 0" by simp_all
  have D: "D \<noteq> 0" using ab a2b by (simp add: D_def)
  have "?a * (?a + ?b) - 2 * (?b * ?b) = D" by (simp add: D_def algebra_simps)
  moreover have "?a * p + 2 * (?b * q) = (?a * (?a + ?b) - 2 * (?b * ?b)) / D"
    by (simp add: p_def q_def diff_divide_distrib)
  ultimately have e1: "?a * p + 2 * (?b * q) = 1" using D by simp
  have "?a * q + ?b * p + ?b * q = (?b * (?a + ?b) - ?a * ?b - ?b * ?b) / D"
    by (simp add: p_def q_def diff_divide_distrib)
  also have "?b * (?a + ?b) - ?a * ?b - ?b * ?b = 0" by (simp add: algebra_simps)
  finally have e2: "?a * q + ?b * p + ?b * q = 0" by simp
  have e3: "0.5 * (?a - ?b) * r = 1" using ab by (simp add: r_def)
  have "inverse_of M (isotropic_pattern p q r)"
    unfolding Mp by (rule pattern_inverse [OF e1 e2 e3])
  from inverse66_entries [OF this] obtain S where S: "inverse66 M = Inr S"
    and Se: "\<forall>i<6. \<forall>j<6. S (i, j) = voigt_weight i * isotropic_pattern p q r (i, j) * voigt_weight j"
    by blast
  have Sp: "S (i, j) = (if i = j \<and> i < 3 then p else if i < 3 \<and> j < 3 then q
                  else if i = j then r / 4 else 0)" if i: "i < 6" and j: "j < 6" for i j
  proof -
    have "S (i, j) = voigt_weight i * isotropic_pattern p q r (i, j) * voigt_weight j"
      using Se i j by blast
    then show ?thesis
      using i j by (auto simp: voigt_weight_def isotropic_pattern_def)
  qed
  have "2 * (- ?b) + 2 * (?a + 2 * ?b) = 2 * (?a + ?b)" by simp
  then have "2 * (- ?b) / D + 2 * (?a + 2 * ?b) / D = 2 * (?a + ?b) / D"
    by (simp only: add_divide_distrib [symmetric])
  moreover have "2 * (?a + 2 * ?b) / D = r"
  proof -
    have "2 * (?a + 2 * ?b) / D = (2 / (?a - ?b)) * ((?a + 2 * ?b) / (?a + 2 * ?b))"
      unfolding D_def by (simp only: times_divide_times_eq)
    also have "\<dots> = 2 / (?a - ?b)" using a2b by simp
    also have "\<dots> = r" by (simp add: r_def)
    finally show ?thesis .
  qed
  ultimately have iso: "2 * q + 4 * (r / 4) = 2 * p"
    by (simp add: p_def q_def)
  have c1: "contraction (C66toC3333 S) d1 = p" by (rule unit_contraction [OF Sp iso d1])
  have c2: "contraction (C66toC3333 S) d2 = p" by (rule unit_contraction [OF Sp iso d2])
  have eq: "E_hkl3333 (C66toC3333 S) d1 = E_hkl3333 (C66toC3333 S) d2"
    by (simp only: E_hkl3333_def c1 c2)
  have val: "E_hkl3333 (C66toC3333 S) d1
      = (if ?a + ?b = 0 then None else Some ((?a - ?b) * (?a + 2 * ?b) / (?a + ?b)))"
    using D by (simp add: E_hkl3333_def c1 p_def D_def)
  from S eq val show ?thesis by blast
qed

lemma unit_vector_examples: "unit_vector (1, 0, 0)" "unit_vector (0, 3 / 5, 4 / 5)"
  by (simp_all add: unit_vector_def)

theorem isotropic_modulus_constant_witness:
  "C66fromSymmetry only_c11_c12 (Some ''isotropic'') = Inr (block_isotropic only_c11_c12 zeros66)
   \<and> invertible66 (block_isotropic only_c11_c12 zeros66)
   \<and> unit_vector (1, 0, 0) \<and> unit_vector (0, 3 / 5, 4 / 5)
   \<and> (\<exists>S. inverse66 (block_isotropic only_c11_c12 zeros66) = Inr S
         \<and> E_hkl3333 (C66toC3333 S) (1, 0, 0) = E_hkl3333 (C66toC3333 S) (0, 3 / 5, 4 / 5)
         \<and> E_hkl3333 (C66toC3333 S) (1, 0, 0) = Some (400 / 3))"
proof -
  let ?M = "block_isotropic only_c11_c12 zeros66"
  have c: "c11 only_c11_c12 = 200" "c12 only_c11_c12 = 100"
    by (simp_all add: only_c11_c12_def)
  have M: "C66fromSymmetry only_c11_c12 (Some ''isotropic'') = Inr ?M" by (rule iso_reduce)
  have "inverse_of (isotropic_pattern 200 100 (0.5 * (200 - 100)))
          (isotropic_pattern (3 / 400) (- 1 / 400) (1 / 50))"
    by (rule pattern_inverse) simp_all
  then have inv: "invertible66 ?M"
    unfolding invertible66_def block_isotropic_pattern c by blast
  from isotropic_modulus_constant [OF M inv unit_vector_examples]
  obtain S where "inverse66 ?M = Inr S"
    "E_hkl3333 (C66toC3333 S) (1, 0, 0) = E_hkl3333 (C66toC3333 S) (0, 3 / 5, 4 / 5)"
    "E_hkl3333 (C66toC3333 S) (1, 0, 0) = Some (400 / 3)"
    unfolding c by auto
  with M inv unit_vector_examples show ?thesis by blast
qed

section \<open>Closed form of Sierpinsky\<close>

lemma masked_row:
  "length xs = n \<Longrightarrow> map fst (filter snd (zip xs (map (\<lambda>m. m \<le> t) [0..<n]))) = take (Suc t) xs"
proof (induction xs arbitrary: n rule: rev_induct)
  case Nil
  then show ?case by simp
next
  case (snoc x xs)
  then obtain m where n: "n = Suc m" and m: "length xs = m" by (cases n) auto
  from snoc.IH [OF m] show ?case
    unfolding n using m by (auto simp: zip_append1)
qed

lemma zip_map_upt: "zip (map F [0..<n]) (map G [0..<n]) = map (\<lambda>a. (F a, G a)) [0..<n]"
  by (simp add: zip_map_map zip_same_conv_map)

lemma masked_maps:
  "masked (map F [0..<n]) (map G [0..<n])
     = concat (map (\<lambda>a. map fst (filter snd (zip (F a) (G a)))) [0..<n])"
  by (simp add: masked_def zip_map_upt o_def)

lemma map_upt_cong: "(\<And>a. a < n \<Longrightarrow> F a = G a) \<Longrightarrow> map F [0..<n] = map G [0..<n]"
  by simp

lemma masked_tril:
  "masked (map (\<lambda>a. map (f a) [0..<n]) [0..<n]) (tril_ones n)
     = concat (map (\<lambda>a. map (f a) [0..<Suc a]) [0..<n])"
proof -
  have "map (\<lambda>a. map fst (filter snd (zip (map (f a) [0..<n]) (map (\<lambda>b. b \<le> a) [0..<n])))) [0..<n]
        = map (\<lambda>a. map (f a) [0..<Suc a]) [0..<n]"
  proof (rule map_upt_cong)
    fix a assume a: "a < n"
    have "map fst (filter snd (zip (map (f a) [0..<n]) (map (\<lambda>b. b \<le> a) [0..<n])))
          = take (Suc a) (map (f a) [0..<n])"
      by (rule masked_row) simp
    also have "\<dots> = map (f a) [0..<Suc a]"
      using a by (simp add: take_map min_def del: upt_Suc)
    finally show "map fst (filter snd (zip (map (f a) [0..<n]) (map (\<lambda>b. b \<le> a) [0..<n])))
          = map (f a) [0..<Suc a]" .
  qed
  then show ?thesis
    unfolding tril_ones_def masked_maps by (rule arg_cong)
qed

lemma meshgrid_arange:
  "meshgrid_ij (arange n) (arange n)
     = (map (\<lambda>a. map (\<lambda>b. int a) [0..<n]) [0..<n], map (\<lambda>a. map (\<lambda>b. int b) [0..<n]) [0..<n])"
  by (simp add: meshgrid_ij_def arange_def o_def)

lemma zip_concat_map:
  "(\<And>x. x \<in> set xs \<Longrightarrow> length (F x) = length (G x)) \<Longrightarrow>
     zip (concat (map F xs)) (concat (map G xs)) = concat (map (\<lambda>x. zip (F x) (G x)) xs)"
  by (induction xs) (simp_all add: zip_append)

lemma zip_lattice:
  "zip (concat (map (\<lambda>a. map (\<lambda>b. int a) [0..<Suc a]) [0..<n]))
       (concat (map (\<lambda>a. map (\<lambda>b. int b) [0..<Suc a]) [0..<n]))
     = map (\<lambda>(a, b). (int a, int b)) (lattice n)"
proof -
  have "zip (concat (map (\<lambda>a. map (\<lambda>b. int a) [0..<Suc a]) [0..<n]))
            (concat (map (\<lambda>a. map (\<lambda>b. int b) [0..<Suc a]) [0..<n]))
        = concat (map (\<lambda>a. zip (map (\<lambda>b. int a) [0..<Suc a]) (map (\<lambda>b. int b) [0..<Suc a])) [0..<n])"
    by (rule zip_concat_map) simp
  also have "\<dots> = concat (map (\<lambda>a. map (\<lambda>b. (int a, int b)) [0..<Suc a]) [0..<n])"
    by (simp only: zip_map_upt)
  also have "\<dots> = map (\<lambda>(a, b). (int a, int b)) (lattice n)"
    by (simp add: lattice_def map_concat o_def del: upt_Suc)
  finally show ?thesis .
qed

lemma tri_Suc: "Suc a * Suc (Suc a) div 2 = a * Suc a div 2 + Suc a"
proof -
  have "Suc a * Suc (Suc a) = a * Suc a + Suc a * 2" by simp
  then show ?thesis by simp
qed

lemma cumsum_from_snoc:
  "cumsum_from s (xs @ [x]) = cumsum_from s xs @ [s + sum_list xs + x]"
  by (induction xs arbitrary: s) (simp_all add: add.assoc)

lemma sum_list_arange: "sum_list (arange n) + int n = int (n * Suc n div 2)"
proof (induction n)
  case 0
  then show ?case by (simp add: arange_def)
next
  case (Suc n)
  have "sum_list (arange (Suc n)) = sum_list (arange n) + int n" by (simp add: arange_def)
  with Suc show ?case by (simp only: tri_Suc)
qed

lemma cumsum_arange: "cumsum (arange n) = map (\<lambda>a. int (a * Suc a div 2)) [0..<n]"
proof (induction n)
  case 0
  then show ?case by (simp add: cumsum_def arange_def)
next
  case (Suc n)
  have "cumsum (arange (Suc n)) = cumsum (arange n) @ [sum_list (arange n) + int n]"
    by (simp add: cumsum_def arange_def cumsum_from_snoc)
  with Suc show ?case by (simp add: sum_list_arange)
qed

lemma c_closed:
  "add_column (map (\<lambda>a. map (\<lambda>b. int b) [0..<n]) [0..<n]) (cumsum (arange n))
     = map (\<lambda>a. map (\<lambda>b. int (point_number a b)) [0..<n]) [0..<n]"
  by (simp add: add_column_def cumsum_arange zip_map_upt point_number_def o_def add.commute)

lemma rotate1_map_upt: "rotate1 (map F [0..<n]) = map (\<lambda>a. F (Suc a mod n)) [0..<n]"
  by (rule nth_equalityI) (simp_all add: nth_rotate1)

lemma roll_axis0_closed:
  "roll_axis0 (map (\<lambda>a. map (F a) [0..<m]) [0..<n]) = map (\<lambda>a. map (F (Suc a mod n)) [0..<m]) [0..<n]"
  by (simp add: roll_axis0_def rotate1_map_upt)

lemma roll_axis1_closed:
  "roll_axis1 (map (\<lambda>a. map (F a) [0..<m]) [0..<n])
     = map (\<lambda>a. map (\<lambda>b. F a (Suc b mod m)) [0..<m]) [0..<n]"
  by (simp add: roll_axis1_def rotate1_map_upt o_def)

lemma every_second_map_upt:
  "every_second (map F [m..<m + 2 * k]) = map (\<lambda>a. F (m + 2 * a)) [0..<k]"
proof (induction k arbitrary: m)
  case 0
  then show ?case by simp
next
  case (Suc k)
  have l: "[m..<m + 2 * Suc k] = m # Suc m # [Suc (Suc m)..<Suc (Suc m) + 2 * k]"
    by (simp add: upt_rec)
  have r: "[0..<Suc k] = 0 # map Suc [0..<k]"
    by (simp add: upt_conv_Cons map_Suc_upt del: upt_Suc)
  show ?case
    unfolding l r using Suc.IH [of "Suc (Suc m)"] by (simp add: o_def)
qed

lemma mask_rows:
  "every_second (take (2 * n - 2) (tril_ones (2 * n)))
     = map (\<lambda>a. map (\<lambda>m. m \<le> 2 * a) [0..<2 * n]) [0..<n - 1]"
proof -
  have e: "2 * n - 2 = 0 + 2 * (n - 1)" by simp
  have "take (2 * n - 2) (tril_ones (2 * n))
        = map (\<lambda>a. map (\<lambda>b. b \<le> a) [0..<2 * n]) [0..<0 + 2 * (n - 1)]"
    unfolding e by (simp add: tril_ones_def take_map min_def)
  then show ?thesis
    by (simp only: every_second_map_upt) simp
qed

lemma take_cells:
  assumes "a < n"
  shows "take (Suc (2 * a)) (concat (map (\<lambda>b. [u b, d b]) [0..<n]))
           = concat (map (\<lambda>b. [u b, d b]) [0..<a]) @ [u a]"
proof -
  have len: "length (concat (map (\<lambda>b. [u b, d b]) [0..<a])) = 2 * a"
    by (induction a) simp_all
  have "[0..<n] = [0..<a] @ [a..<n]"
    using upt_add_eq_append [of 0 a "n - a"] assms by simp
  then have "[0..<n] = [0..<a] @ a # [Suc a..<n]"
    using assms by (simp add: upt_conv_Cons)
  then have "concat (map (\<lambda>b. [u b, d b]) [0..<n])
        = concat (map (\<lambda>b. [u b, d b]) [0..<a]) @ u a # d a # concat (map (\<lambda>b. [u b, d b]) [Suc a..<n])"
    by simp
  then show ?thesis by (simp add: len)
qed

lemma nth_table: "a < n \<Longrightarrow> b < m \<Longrightarrow> map (\<lambda>a. map (F a) [0..<m]) [0..<n] ! a ! b = F a b"
  by simp

text \<open>
  Row \<open>a\<close> of the reshaped array holds, for every column \<open>b\<close>, the triangle below-left
  of the lattice point and the triangle to its right; the rolls wrap around at the last
  row and the last column.
\<close>

lemma stack_closed:
  "stack_transpose_reshape
      (map (\<lambda>a. map (c a) [0..<n]) [0..<n],
       map (\<lambda>a. map (c (Suc a mod n)) [0..<n]) [0..<n],
       map (\<lambda>a. map (\<lambda>b. c (Suc a mod n) (Suc b mod n)) [0..<n]) [0..<n])
      (map (\<lambda>a. map (c a) [0..<n]) [0..<n],
       map (\<lambda>a. map (\<lambda>b. c (Suc a mod n) (Suc b mod n)) [0..<n]) [0..<n],
       map (\<lambda>a. map (\<lambda>b. c a (Suc b mod n)) [0..<n]) [0..<n]) n
    = map (\<lambda>a. concat (map (\<lambda>b. [(c a b, c (Suc a mod n) b, c (Suc a mod n) (Suc b mod n)),
                                   (c a b, c (Suc a mod n) (Suc b mod n), c a (Suc b mod n))])
                           [0..<n])) [0..<n]"
  unfolding stack_transpose_reshape_def
proof (rule map_upt_cong)
  fix a assume a: "a < n"
  show "concat (map (\<lambda>b. [at3 (map (\<lambda>a. map (c a) [0..<n]) [0..<n],
       map (\<lambda>a. map (c (Suc a mod n)) [0..<n]) [0..<n],
       map (\<lambda>a. map (\<lambda>b. c (Suc a mod n) (Suc b mod n)) [0..<n]) [0..<n]) a b,
         at3 (map (\<lambda>a. map (c a) [0..<n]) [0..<n],
       map (\<lambda>a. map (\<lambda>b. c (Suc a mod n) (Suc b mod n)) [0..<n]) [0..<n],
       map (\<lambda>a. map (\<lambda>b. c a (Suc b mod n)) [0..<n]) [0..<n]) a b]) [0..<n])
     = concat (map (\<lambda>b. [(c a b, c (Suc a mod n) b, c (Suc a mod n) (Suc b mod n)),
                                   (c a b, c (Suc a mod n) (Suc b mod n), c a (Suc b mod n))])
                           [0..<n])"
    by (rule arg_cong [where f = concat], rule map_upt_cong) (simp add: at3_def a)
qed

lemma masked_lattice_weights:
  "map (\<lambda>(i, j). (real_of_int (int n - 1 - i) / real_of_int (int n - 1),
                   real_of_int (i - j) / real_of_int (int n - 1),
                   real_of_int j / real_of_int (int n - 1)))
       (zip (masked (map (\<lambda>a. map (\<lambda>b. int a) [0..<n]) [0..<n]) (tril_ones n))
            (masked (map (\<lambda>a. map (\<lambda>b. int b) [0..<n]) [0..<n]) (tril_ones n)))
     = map (weight_of n) (lattice n)"
  unfolding masked_tril zip_lattice
  by (simp add: weight_of_def split_def)

lemma length_row:
  "length (concat (map (\<lambda>b. [u b, d b]) [0..<n])) = 2 * n"
  by (induction n) simp_all

lemma butlast_map_upt: "butlast (map F [0..<n]) = map F [0..<n - 1]"
  by (simp add: butlast_conv_take take_map)

lemma masked_triangles:
  fixes c :: "nat \<Rightarrow> nat \<Rightarrow> int"
  shows "masked
     (butlast (map (\<lambda>a. concat (map (\<lambda>b. [(c a b, c (Suc a mod n) b, c (Suc a mod n) (Suc b mod n)),
                                   (c a b, c (Suc a mod n) (Suc b mod n), c a (Suc b mod n))])
                           [0..<n])) [0..<n]))
     (every_second (take (2 * n - 2) (tril_ones (2 * n))))
   = concat (map (\<lambda>a. concat (map (\<lambda>b. [(c a b, c (Suc a) b, c (Suc a) (Suc b)),
                                          (c a b, c (Suc a) (Suc b), c a (Suc b))]) [0..<a])
                         @ [(c a a, c (Suc a) a, c (Suc a) (Suc a))])
                 [0..<n - 1])"
proof -
  let ?u = "\<lambda>a b. (c a b, c (Suc a mod n) b, c (Suc a mod n) (Suc b mod n))"
  let ?d = "\<lambda>a b. (c a b, c (Suc a mod n) (Suc b mod n), c a (Suc b mod n))"
  let ?R = "\<lambda>a. concat (map (\<lambda>b. [?u a b, ?d a b]) [0..<n])"
  have b: "butlast (map ?R [0..<n]) = map ?R [0..<n - 1]"
    by (rule butlast_map_upt)
  have "masked (map ?R [0..<n - 1]) (map (\<lambda>a. map (\<lambda>m. m \<le> 2 * a) [0..<2 * n]) [0..<n - 1])
        = concat (map (\<lambda>a. map fst (filter snd (zip (?R a) (map (\<lambda>m. m \<le> 2 * a) [0..<2 * n])))) [0..<n - 1])"
    by (rule masked_maps)
  also have "map (\<lambda>a. map fst (filter snd (zip (?R a) (map (\<lambda>m. m \<le> 2 * a) [0..<2 * n])))) [0..<n - 1]
        = map (\<lambda>a. concat (map (\<lambda>b. [(c a b, c (Suc a) b, c (Suc a) (Suc b)),
                                          (c a b, c (Suc a) (Suc b), c a (Suc b))]) [0..<a])
                         @ [(c a a, c (Suc a) a, c (Suc a) (Suc a))]) [0..<n - 1]"
  proof (rule map_upt_cong)
    fix a assume a: "a < n - 1"
    then have an: "a < n" and sa: "Suc a mod n = Suc a" by simp_all
    have "map fst (filter snd (zip (?R a) (map (\<lambda>m. m \<le> 2 * a) [0..<2 * n])))
          = take (Suc (2 * a)) (?R a)"
      by (rule masked_row) (rule length_row)
    also have "\<dots> = concat (map (\<lambda>b. [?u a b, ?d a b]) [0..<a]) @ [?u a a]"
      by (rule take_cells [OF an])
    also have "map (\<lambda>b. [?u a b, ?d a b]) [0..<a]
          = map (\<lambda>b. [(c a b, c (Suc a) b, c (Suc a) (Suc b)),
                      (c a b, c (Suc a) (Suc b), c a (Suc b))]) [0..<a]"
      using a by (intro map_upt_cong) (simp add: sa)
    also have "?u a a = (c a a, c (Suc a) a, c (Suc a) (Suc a))"
      using a by (simp add: sa)
    finally show "map fst (filter snd (zip (?R a) (map (\<lambda>m. m \<le> 2 * a) [0..<2 * n])))
          = concat (map (\<lambda>b. [(c a b, c (Suc a) b, c (Suc a) (Suc b)),
                                          (c a b, c (Suc a) (Suc b), c a (Suc b))]) [0..<a])
                         @ [(c a a, c (Suc a) a, c (Suc a) (Suc a))]" .
  qed
  finally show ?thesis
    unfolding b mask_rows .
qed

text \<open>
  \<^verbatim>\<open>Sierpinsky(N)\<close> in closed form, with \<open>n = 1 + 2 ^ N\<close>: the weights are those of the
  lattice pairs in row-major order, and the connectivity lists, row by row, the two
  triangles of each cell left of the diagonal and the one triangle on it.
\<close>

lemma Sierpinsky_closed:
  "Sierpinsky N = (map (weight_of (1 + 2 ^ N)) (lattice (1 + 2 ^ N)), triangles (1 + 2 ^ N))"
proof -
  let ?n = "1 + 2 ^ N :: nat"
  let ?c = "\<lambda>a b. int (point_number a b)"
  have c: "add_column (map (\<lambda>a. map (\<lambda>b. int b) [0..<?n]) [0..<?n]) (cumsum (arange ?n))
           = map (\<lambda>a. map (?c a) [0..<?n]) [0..<?n]"
    by (rule c_closed)
  have r0: "roll_axis0 (map (\<lambda>a. map (?c a) [0..<?n]) [0..<?n])
           = map (\<lambda>a. map (?c (Suc a mod ?n)) [0..<?n]) [0..<?n]"
    by (rule roll_axis0_closed)
  have r1: "roll_axis1 (map (\<lambda>a. map (?c a) [0..<?n]) [0..<?n])
           = map (\<lambda>a. map (\<lambda>b. ?c a (Suc b mod ?n)) [0..<?n]) [0..<?n]"
    by (rule roll_axis1_closed)
  have r01: "roll_axis1 (map (\<lambda>a. map (?c (Suc a mod ?n)) [0..<?n]) [0..<?n])
           = map (\<lambda>a. map (\<lambda>b. ?c (Suc a mod ?n) (Suc b mod ?n)) [0..<?n]) [0..<?n]"
    by (rule roll_axis1_closed)
  have t: "masked (butlast (stack_transpose_reshape
      (map (\<lambda>a. map (?c a) [0..<?n]) [0..<?n],
       map (\<lambda>a. map (?c (Suc a mod ?n)) [0..<?n]) [0..<?n],
       map (\<lambda>a. map (\<lambda>b. ?c (Suc a mod ?n) (Suc b mod ?n)) [0..<?n]) [0..<?n])
      (map (\<lambda>a. map (?c a) [0..<?n]) [0..<?n],
       map (\<lambda>a. map (\<lambda>b. ?c (Suc a mod ?n) (Suc b mod ?n)) [0..<?n]) [0..<?n],
       map (\<lambda>a. map (\<lambda>b. ?c a (Suc b mod ?n)) [0..<?n]) [0..<?n]) ?n))
     (every_second (take (2 * ?n - 2) (tril_ones (2 * ?n)))) = triangles ?n"
    unfolding stack_closed [where c = ?c and n = ?n] masked_triangles [where c = ?c and n = ?n]
      triangles_def cell_up_def cell_down_def ..
  show ?thesis
    unfolding Sierpinsky_def Let_def meshgrid_arange prod.case c r0 r1 r01 t masked_lattice_weights ..
qed

section \<open>Counts and index bounds of the mesh\<close>

lemma length_lattice: "length (lattice n) = n * Suc n div 2"
proof -
  have "sum_list (map (\<lambda>a. Suc a) [0..<n]) = n * Suc n div 2"
  proof (induction n)
    case 0
    then show ?case by simp
  next
    case (Suc n)
    then show ?case by (simp only: tri_Suc) simp
  qed
  then show ?thesis
    by (simp add: lattice_def length_concat o_def del: upt_Suc)
qed

lemma length_triangles: "length (triangles n) = (n - 1) * (n - 1)"
proof -
  have "sum_list (map (\<lambda>a. Suc (2 * a)) [0..<m]) = m * m" for m
    by (induction m) simp_all
  moreover have "map length (map (\<lambda>a. concat (map (\<lambda>b. [cell_up a b, cell_down a b]) [0..<a])
                       @ [cell_up a a]) [0..<n - 1]) = map (\<lambda>a. Suc (2 * a)) [0..<n - 1]"
    by (simp add: length_row)
  ultimately show ?thesis
    by (simp only: triangles_def length_concat)
qed

lemma length_weights: "length (fst (Sierpinsky N)) = (2 ^ N + 1) * (2 ^ N + 2) div 2"
  by (simp add: Sierpinsky_closed length_lattice)

lemma length_c: "length (snd (Sierpinsky N)) = (2 ^ N) ^ 2"
  by (simp add: Sierpinsky_closed length_triangles power2_eq_square)

lemma length_concat_const:
  "(\<And>x. x \<in> set xs \<Longrightarrow> length (F x) = m) \<Longrightarrow> length (concat (map F xs)) = length xs * m"
  by (induction xs) simp_all

lemma length_nodes: "length (nodes N) = 8 * length (fst (Sierpinsky N))"
proof -
  obtain w c where s: "Sierpinsky N = (w, c)" by (cases "Sierpinsky N")
  have "length (concat (map (\<lambda>face. map (\<lambda>w. normalize (face_point w face)) w) octahedron))
        = length octahedron * length w"
    by (rule length_concat_const) simp
  then show ?thesis by (simp add: nodes_def s octahedron_def)
qed

lemma length_connectivity: "length (connectivity N) = 8 * length (snd (Sierpinsky N))"
proof -
  obtain w c where s: "Sierpinsky N = (w, c)" by (cases "Sierpinsky N")
  have "length (concat (map (\<lambda>f. map (\<lambda>(x, y, z). (int (length w) * f + x,
                                            int (length w) * f + y,
                                            int (length w) * f + z)) c) (arange N_faces)))
        = length (arange N_faces) * length c"
    by (rule length_concat_const) simp
  then show ?thesis by (simp add: connectivity_def s N_faces_def octahedron_def arange_def)
qed

text \<open>
  Claim C1. For every subdivision level \<open>N\<close>, with \<open>n = 2 ^ N + 1\<close>, \<^verbatim>\<open>Sierpinsky\<close> returns
  \<open>n (n + 1) / 2\<close> weight triples and \<open>(n - 1)\<^sup>2 = (2 ^ N)\<^sup>2\<close> triangles, and the assembled
  mesh over the 8 faces has \<open>8 n (n + 1) / 2\<close> points and \<open>8 (2 ^ N)\<^sup>2\<close> triangles.
\<close>

theorem mesh_counts:
  "length (fst (Sierpinsky N)) = (2 ^ N + 1) * (2 ^ N + 2) div 2
   \<and> length (snd (Sierpinsky N)) = (2 ^ N) ^ 2
   \<and> length (nodes N) = 8 * ((2 ^ N + 1) * (2 ^ N + 2) div 2)
   \<and> length (connectivity N) = 8 * (2 ^ N) ^ 2"
  by (simp only: length_nodes length_connectivity length_weights length_c)

theorem mesh_counts_witness:
  "length (fst (Sierpinsky 2)) = 15 \<and> length (snd (Sierpinsky 2)) = 16
   \<and> length (nodes 2) = 120 \<and> length (connectivity 2) = 128"
  using mesh_counts [of 2] by simp

lemma tri_mono: "m \<le> n \<Longrightarrow> m * Suc m div 2 \<le> n * Suc n div 2"
  by (intro div_le_mono mult_le_mono) simp_all

lemma point_number_bound:
  assumes "b \<le> a" "a < n"
  shows "point_number a b < n * Suc n div 2"
proof -
  have "point_number a b < a * Suc a div 2 + Suc a"
    using assms(1) by (simp add: point_number_def)
  also have "\<dots> = Suc a * Suc (Suc a) div 2" by (simp only: tri_Suc)
  also have "\<dots> \<le> n * Suc n div 2"
    using assms(2) by (intro tri_mono) simp
  finally show ?thesis .
qed

lemma triangles_cases:
  assumes "t \<in> set (triangles n)"
  obtains a b where "a < n - 1" "b \<le> a" "t = cell_up a b"
  | a b where "a < n - 1" "b < a" "t = cell_down a b"
proof -
  have "\<exists>a. a < n - 1
      \<and> t \<in> set (concat (map (\<lambda>b. [cell_up a b, cell_down a b]) [0..<a]) @ [cell_up a a])"
    using assms unfolding triangles_def set_concat set_map set_upt
    by (elim UN_E imageE) (simp only: atLeastLessThan_iff, blast)
  then obtain a where a: "a < n - 1"
    and t: "t \<in> set (concat (map (\<lambda>b. [cell_up a b, cell_down a b]) [0..<a]) @ [cell_up a a])"
    by blast
  from t consider "t = cell_up a a" | b where "b < a" "t = cell_up a b"
    | b where "b < a" "t = cell_down a b"
    by auto
  then show thesis
  proof cases
    case 1
    with a show ?thesis by (intro that(1) [of a a]) simp_all
  next
    case (2 b)
    with a show ?thesis by (intro that(1) [of a b]) simp_all
  next
    case (3 b)
    with a show ?thesis by (intro that(2) [of a b]) simp_all
  qed
qed

lemma triangle_entries_bound:
  assumes "(x, y, z) \<in> set (triangles n)"
  shows "0 \<le> x \<and> x < int (n * Suc n div 2) \<and> 0 \<le> y \<and> y < int (n * Suc n div 2)
       \<and> 0 \<le> z \<and> z < int (n * Suc n div 2)"
  using assms
proof (cases rule: triangles_cases)
  case (1 a b)
  then have "point_number a b < n * Suc n div 2" "point_number (Suc a) b < n * Suc n div 2"
    "point_number (Suc a) (Suc b) < n * Suc n div 2"
    by (intro point_number_bound; simp)+
  with 1 show ?thesis by (simp add: cell_up_def)
next
  case (2 a b)
  then have "point_number a b < n * Suc n div 2" "point_number (Suc a) (Suc b) < n * Suc n div 2"
    "point_number a (Suc b) < n * Suc n div 2"
    by (intro point_number_bound; simp)+
  with 2 show ?thesis by (simp add: cell_down_def)
qed

lemma N_faces_8: "N_faces = 8"
  by (simp add: N_faces_def octahedron_def)

lemma connectivity_closed:
  "connectivity N =
     concat (map (\<lambda>f. map (\<lambda>(x, y, z). (int (length (lattice (1 + 2 ^ N))) * f + x,
                                          int (length (lattice (1 + 2 ^ N))) * f + y,
                                          int (length (lattice (1 + 2 ^ N))) * f + z))
                           (triangles (1 + 2 ^ N)))
                 (arange 8))"
  unfolding connectivity_def Sierpinsky_closed prod.case N_faces_8 length_map ..

text \<open>
  Claim C9. For every subdivision level \<open>N\<close>, every index of every triple of the assembled
  connectivity is at least 0 and less than the number of emitted points, which is
  \<open>8 (2 ^ N + 1) (2 ^ N + 2) / 2\<close>.
\<close>

theorem connectivity_in_range:
  assumes "(x, y, z) \<in> set (connectivity N)"
  shows "0 \<le> x \<and> x < int (length (nodes N))
       \<and> 0 \<le> y \<and> y < int (length (nodes N))
       \<and> 0 \<le> z \<and> z < int (length (nodes N))
       \<and> length (nodes N) = 8 * ((2 ^ N + 1) * (2 ^ N + 2) div 2)"
proof -
  let ?n = "1 + 2 ^ N :: nat"
  let ?P = "?n * Suc ?n div 2"
  have P: "length (lattice ?n) = ?P" by (rule length_lattice)
  have len: "length (nodes N) = 8 * ?P"
    by (simp add: length_nodes Sierpinsky_closed length_lattice)
  from assms obtain f x' y' z' where f: "f < 8" and t: "(x', y', z') \<in> set (triangles ?n)"
    and x: "x = int ?P * int f + x'" and y: "y = int ?P * int f + y'"
    and z: "z = int ?P * int f + z'"
    unfolding connectivity_closed P by (auto simp: arange_def)
  have b: "0 \<le> x' \<and> x' < int ?P \<and> 0 \<le> y' \<and> y' < int ?P \<and> 0 \<le> z' \<and> z' < int ?P"
    by (rule triangle_entries_bound [OF t])
  have up: "int ?P * int f + int ?P \<le> int (8 * ?P)"
  proof -
    have "?P * f + ?P = ?P * Suc f" by simp
    also have "\<dots> \<le> ?P * 8" using f by (intro mult_le_mono2) simp
    finally have "?P * f + ?P \<le> 8 * ?P" by (simp add: mult.commute)
    then have "int (?P * f + ?P) \<le> int (8 * ?P)" by (simp only: of_nat_le_iff)
    then show ?thesis by (simp only: of_nat_add of_nat_mult)
  qed
  have lo: "0 \<le> int ?P * int f" by simp
  have "0 \<le> x \<and> x < int (8 * ?P) \<and> 0 \<le> y \<and> y < int (8 * ?P) \<and> 0 \<le> z \<and> z < int (8 * ?P)"
    unfolding x y z using b up lo by linarith
  then show ?thesis
    unfolding len by (simp add: add.commute)
qed

theorem connectivity_in_range_witness:
  "(21, 22, 23) \<in> set (connectivity 0)
   \<and> (0::int) \<le> 21 \<and> 21 < int (length (nodes 0))
   \<and> (0::int) \<le> 22 \<and> 22 < int (length (nodes 0))
   \<and> (0::int) \<le> 23 \<and> 23 < int (length (nodes 0))
   \<and> length (nodes 0) = 24"
proof -
  have m: "(21, 22, 23) \<in> set (connectivity 0)" by code_simp
  show ?thesis using m connectivity_in_range [OF m] by simp
qed

section \<open>Coincident nodes\<close>

lemma nth_concat_const:
  "(\<And>x. x \<in> set xs \<Longrightarrow> length (F x) = m) \<Longrightarrow> f < length xs \<Longrightarrow> i < m \<Longrightarrow>
     concat (map F xs) ! (f * m + i) = F (xs ! f) ! i"
proof (induction xs arbitrary: f)
  case Nil
  then show ?case by simp
next
  case (Cons x xs)
  have lx: "length (F x) = m" by (rule Cons.prems(1)) simp
  show ?case
  proof (cases f)
    case 0
    then show ?thesis using Cons.prems(3) lx by (simp add: nth_append)
  next
    case (Suc g)
    have "concat (map F xs) ! (g * m + i) = F (xs ! g) ! i"
      using Cons.prems Suc by (intro Cons.IH) simp_all
    then show ?thesis using Suc lx by (simp add: nth_append add.assoc)
  qed
qed

lemma nodes_closed:
  "nodes N = concat (map (\<lambda>face. map (\<lambda>w. normalize (face_point w face))
                                      (map (weight_of (1 + 2 ^ N)) (lattice (1 + 2 ^ N))))
                         octahedron)"
  unfolding nodes_def Sierpinsky_closed prod.case ..

lemma length_octahedron: "length octahedron = 8"
  by (simp add: octahedron_def)

lemma nodes_nth:
  assumes "f < 8" "i < length (lattice (1 + 2 ^ N))"
  shows "nodes N ! (f * length (lattice (1 + 2 ^ N)) + i)
           = normalize (face_point (weight_of (1 + 2 ^ N) (lattice (1 + 2 ^ N) ! i)) (octahedron ! f))"
proof -
  let ?W = "map (weight_of (1 + 2 ^ N)) (lattice (1 + 2 ^ N))"
  have "concat (map (\<lambda>face. map (\<lambda>w. normalize (face_point w face)) ?W) octahedron)
          ! (f * length (lattice (1 + 2 ^ N)) + i)
        = map (\<lambda>w. normalize (face_point w (octahedron ! f))) ?W ! i"
    using assms by (intro nth_concat_const) (simp_all add: length_octahedron)
  then show ?thesis using assms(2) by (simp add: nodes_closed)
qed

text \<open>The position of a pair in the lattice is its point number.\<close>

lemma lattice_numbers: "map (\<lambda>(a, b). point_number a b) (lattice n) = [0..<n * Suc n div 2]"
proof (induction n)
  case 0
  then show ?case by (simp add: lattice_def)
next
  case (Suc n)
  have "map (\<lambda>b. point_number n b) [0..<Suc n] = [n * Suc n div 2..<n * Suc n div 2 + Suc n]"
    unfolding point_number_def by (rule nth_equalityI) (simp_all del: upt_Suc)
  moreover have "lattice (Suc n) = lattice n @ map (\<lambda>b. (n, b)) [0..<Suc n]"
    by (simp add: lattice_def)
  ultimately have "map (\<lambda>(a, b). point_number a b) (lattice (Suc n))
      = [0..<n * Suc n div 2] @ [n * Suc n div 2..<n * Suc n div 2 + Suc n]"
    using Suc by (simp add: o_def del: upt_Suc)
  also have "\<dots> = [0..<n * Suc n div 2 + Suc n]"
    by (simp only: upt_add_eq_append [OF le0, symmetric])
  finally show ?case by (simp only: tri_Suc)
qed

lemma distinct_lattice: "distinct (lattice n)"
proof -
  have "distinct (map (\<lambda>(a, b). point_number a b) (lattice n))"
    by (simp only: lattice_numbers distinct_upt)
  then show ?thesis by (simp only: distinct_map)
qed

lemma lattice_mem: "(a, b) \<in> set (lattice n) \<longleftrightarrow> b \<le> a \<and> a < n"
  by (force simp: lattice_def simp del: upt_Suc)

text \<open>
  Two points of a plane \<open>s \<cdot> v = 1\<close> that have the same direction are equal.
\<close>

lemma normalize_eq_on_plane:
  assumes eq: "normalize (x, y, z) = normalize (x', y', z')"
    and p: "s1 * x + s2 * y + s3 * z = 1" and p': "s1 * x' + s2 * y' + s3 * z' = 1"
  shows "(x, y, z) = (x', y', z')"
proof -
  let ?r = "sqrt (x * x + y * y + z * z)" and ?r' = "sqrt (x' * x' + y' * y' + z' * z')"
  have nz: "x * x + y * y + z * z \<noteq> 0"
  proof
    assume "x * x + y * y + z * z = 0"
    then have "x = 0 \<and> y = 0 \<and> z = 0"
      by (metis add_nonneg_eq_0_iff mult_eq_0_iff zero_le_square add_nonneg_nonneg)
    with p show False by simp
  qed
  have nz': "x' * x' + y' * y' + z' * z' \<noteq> 0"
  proof
    assume "x' * x' + y' * y' + z' * z' = 0"
    then have "x' = 0 \<and> y' = 0 \<and> z' = 0"
      by (metis add_nonneg_eq_0_iff mult_eq_0_iff zero_le_square add_nonneg_nonneg)
    with p' show False by simp
  qed
  have r: "?r \<noteq> 0" and r': "?r' \<noteq> 0" using nz nz' by simp_all
  from eq have c: "x / ?r = x' / ?r'" "y / ?r = y' / ?r'" "z / ?r = z' / ?r'"
    by (simp_all add: normalize_def Let_def)
  have "1 / ?r = (s1 * x + s2 * y + s3 * z) / ?r" by (simp only: p)
  also have "\<dots> = s1 * (x / ?r) + s2 * (y / ?r) + s3 * (z / ?r)"
    by (simp add: add_divide_distrib)
  also have "\<dots> = s1 * (x' / ?r') + s2 * (y' / ?r') + s3 * (z' / ?r')"
    by (simp only: c)
  also have "\<dots> = (s1 * x' + s2 * y' + s3 * z') / ?r'"
    by (simp add: add_divide_distrib)
  also have "\<dots> = 1 / ?r'" by (simp only: p')
  finally have "?r = ?r'" using r r' by (simp add: field_simps)
  with c r' show ?thesis by simp
qed

text \<open>
  Each face has a sign vector \<open>s\<close> with \<open>s \<cdot> v = w0 + w1 + w2\<close> for the point \<open>v\<close> of
  the weights \<open>w\<close>, and the point determines the weights.
\<close>

lemma face_plane:
  assumes "face \<in> set octahedron"
  shows "\<exists>s1 s2 s3. \<forall>w0 w1 w2 x y z. face_point (w0, w1, w2) face = (x, y, z) \<longrightarrow>
           s1 * x + s2 * y + s3 * z = w0 + w1 + w2"
proof -
  from assms consider "face = (0, 2, 4)" | "face = (2, 1, 4)" | "face = (1, 3, 4)"
    | "face = (3, 0, 4)" | "face = (0, 5, 2)" | "face = (2, 5, 1)" | "face = (1, 5, 3)"
    | "face = (3, 5, 0)"
    by (auto simp: octahedron_def)
  then show ?thesis
  proof cases
    case 1
    show ?thesis
      by (rule exI [of _ 1], rule exI [of _ 1], rule exI [of _ 1])
        (auto simp: 1 face_point_def node_def)
  next
    case 2
    show ?thesis
      by (rule exI [of _ "- 1"], rule exI [of _ 1], rule exI [of _ 1])
        (auto simp: 2 face_point_def node_def)
  next
    case 3
    show ?thesis
      by (rule exI [of _ "- 1"], rule exI [of _ "- 1"], rule exI [of _ 1])
        (auto simp: 3 face_point_def node_def)
  next
    case 4
    show ?thesis
      by (rule exI [of _ 1], rule exI [of _ "- 1"], rule exI [of _ 1])
        (auto simp: 4 face_point_def node_def)
  next
    case 5
    show ?thesis
      by (rule exI [of _ 1], rule exI [of _ 1], rule exI [of _ "- 1"])
        (auto simp: 5 face_point_def node_def)
  next
    case 6
    show ?thesis
      by (rule exI [of _ "- 1"], rule exI [of _ 1], rule exI [of _ "- 1"])
        (auto simp: 6 face_point_def node_def)
  next
    case 7
    show ?thesis
      by (rule exI [of _ "- 1"], rule exI [of _ "- 1"], rule exI [of _ "- 1"])
        (auto simp: 7 face_point_def node_def)
  next
    case 8
    show ?thesis
      by (rule exI [of _ 1], rule exI [of _ "- 1"], rule exI [of _ "- 1"])
        (auto simp: 8 face_point_def node_def)
  qed
qed

lemma face_point_inj:
  assumes "face \<in> set octahedron" "face_point w face = face_point w' face"
  shows "w = w'"
proof -
  obtain w0 w1 w2 where w: "w = (w0, w1, w2)" by (cases w)
  obtain v0 v1 v2 where w': "w' = (v0, v1, v2)" by (cases w')
  from assms(1) consider "face = (0, 2, 4)" | "face = (2, 1, 4)" | "face = (1, 3, 4)"
    | "face = (3, 0, 4)" | "face = (0, 5, 2)" | "face = (2, 5, 1)" | "face = (1, 5, 3)"
    | "face = (3, 5, 0)"
    by (auto simp: octahedron_def)
  then show ?thesis
    using assms(2) unfolding w w' by cases (simp_all add: face_point_def node_def)
qed

lemma weight_sum:
  assumes "1 < n" "weight_of n (a, b) = (w0, w1, w2)"
  shows "w0 + w1 + w2 = 1"
proof -
  have nz: "real n - 1 \<noteq> 0" using assms(1) by simp
  from assms(2) have "w0 = (real n - 1 - real a) / (real n - 1)"
    "w1 = (real a - real b) / (real n - 1)" "w2 = real b / (real n - 1)"
    by (auto simp: weight_of_def)
  then have "w0 + w1 + w2 = ((real n - 1 - real a) + (real a - real b) + real b) / (real n - 1)"
    by (simp only: add_divide_distrib)
  also have "\<dots> = 1" using nz by simp
  finally show ?thesis .
qed

lemma weight_of_inj:
  assumes "1 < n" "weight_of n p = weight_of n q"
  shows "p = q"
proof -
  obtain a b where p: "p = (a, b)" by (cases p)
  obtain a' b' where q: "q = (a', b')" by (cases q)
  have nz: "real_of_int (int n - 1) \<noteq> 0" using assms(1) by simp
  from assms(2) have "real_of_int (int n - 1 - int a) = real_of_int (int n - 1 - int a')"
    and "real_of_int (int b) = real_of_int (int b')"
    unfolding p q weight_of_def using nz by (simp_all only: prod.case prod.inject divide_cancel_right) simp_all
  then show ?thesis unfolding p q by simp
qed

lemma lattice_2: "lattice (1 + 2 ^ 0) = [(0, 0), (1, 0), (1, 1)]"
  by code_simp

lemma nodes_0_1: "nodes 0 ! 1 = (0, 1, 0)"
  using nodes_nth [of 0 1 0, unfolded lattice_2]
  by (simp add: weight_of_def octahedron_def face_point_def node_def normalize_def)

lemma nodes_0_3: "nodes 0 ! 3 = (0, 1, 0)"
  using nodes_nth [of 1 0 0, unfolded lattice_2]
  by (simp add: weight_of_def octahedron_def face_point_def node_def normalize_def
      numeral_3_eq_3)

text \<open>
  Claim C8 says that no two distinct node indices hold the same position. At \<open>N = 0\<close>
  the indices 1 (face 0, second lattice point) and 3 (face 1, first lattice point) both
  hold the octahedron vertex \<open>(0, 1, 0)\<close>.
\<close>

theorem nodes_coincide_counterexample:
  "nodes 0 ! 1 = nodes 0 ! 3 \<and> (1::nat) \<noteq> 3 \<and> 1 < length (nodes 0) \<and> 3 < length (nodes 0)
   \<and> \<not> distinct (nodes 0)"
proof -
  have l: "length (nodes 0) = 24" by (simp add: length_nodes length_weights)
  have e: "nodes 0 ! 1 = nodes 0 ! 3" by (simp only: nodes_0_1 nodes_0_3)
  have "\<not> distinct (nodes 0)"
  proof
    assume "distinct (nodes 0)"
    then have "nodes 0 ! 1 \<noteq> nodes 0 ! 3"
      by (simp add: nth_eq_iff_index_eq l)
    with e show False by simp
  qed
  with e l show ?thesis by simp
qed

lemma last_lattice: "0 < n \<Longrightarrow> lattice n ! (length (lattice n) - 1) = (n - 1, n - 1)"
proof -
  assume "0 < n"
  then obtain m where n: "n = Suc m" by (cases n) auto
  have "lattice (Suc m) = (lattice m @ map (\<lambda>b. (m, b)) [0..<m]) @ [(m, m)]"
    by (simp add: lattice_def)
  then have "last (lattice (Suc m)) = (m, m)" by (simp only: last_snoc)
  moreover have "lattice (Suc m) \<noteq> []" by (simp add: lattice_def)
  ultimately show ?thesis unfolding n by (simp add: last_conv_nth)
qed

lemma shared_vertex:
  assumes "f < 2"
  shows "nodes N ! (f * length (lattice (1 + 2 ^ N)) + (length (lattice (1 + 2 ^ N)) - 1)) = (0, 0, 1)"
proof -
  let ?n = "1 + 2 ^ N :: nat"
  have pos: "0 < length (lattice ?n)" by (simp add: length_lattice)
  have w: "weight_of ?n (?n - 1, ?n - 1) = (0, 0, 1)" by (simp add: weight_of_def)
  have "f = 0 \<or> f = 1" using assms by arith
  then have fp: "face_point (0, 0, 1) (octahedron ! f) = (0, 0, 1)"
    by (auto simp: octahedron_def face_point_def node_def)
  have "nodes N ! (f * length (lattice ?n) + (length (lattice ?n) - 1))
      = normalize (face_point (weight_of ?n (lattice ?n ! (length (lattice ?n) - 1))) (octahedron ! f))"
    using assms pos by (intro nodes_nth) simp_all
  also have "\<dots> = normalize (0, 0, 1)"
  proof -
    have "lattice ?n ! (length (lattice ?n) - 1) = (?n - 1, ?n - 1)"
      by (rule last_lattice) simp
    then show ?thesis by (simp only: w fp)
  qed
  finally show ?thesis by (simp add: normalize_def)
qed

lemma within_face_distinct:
  assumes f: "f < 8" and i: "i < length (lattice (1 + 2 ^ N))"
    and j: "j < length (lattice (1 + 2 ^ N))" and ne: "i \<noteq> j"
  shows "nodes N ! (f * length (lattice (1 + 2 ^ N)) + i)
           \<noteq> nodes N ! (f * length (lattice (1 + 2 ^ N)) + j)"
proof
  let ?n = "1 + 2 ^ N :: nat"
  let ?face = "octahedron ! f"
  assume eq: "nodes N ! (f * length (lattice ?n) + i) = nodes N ! (f * length (lattice ?n) + j)"
  have n: "1 < ?n" by simp
  have face: "?face \<in> set octahedron" using f by (simp add: length_octahedron)
  obtain a b where p: "lattice ?n ! i = (a, b)" by (cases "lattice ?n ! i")
  obtain a' b' where q: "lattice ?n ! j = (a', b')" by (cases "lattice ?n ! j")
  obtain w0 w1 w2 where w: "weight_of ?n (a, b) = (w0, w1, w2)" by (cases "weight_of ?n (a, b)")
  obtain v0 v1 v2 where v: "weight_of ?n (a', b') = (v0, v1, v2)" by (cases "weight_of ?n (a', b')")
  obtain x y z where pt: "face_point (w0, w1, w2) ?face = (x, y, z)"
    by (cases "face_point (w0, w1, w2) ?face")
  obtain x' y' z' where pt': "face_point (v0, v1, v2) ?face = (x', y', z')"
    by (cases "face_point (v0, v1, v2) ?face")
  from face_plane [OF face] obtain s1 s2 s3 where
    s: "\<And>w0 w1 w2 x y z. face_point (w0, w1, w2) ?face = (x, y, z) \<Longrightarrow>
           s1 * x + s2 * y + s3 * z = w0 + w1 + w2"
    by blast
  have "s1 * x + s2 * y + s3 * z = 1" "s1 * x' + s2 * y' + s3 * z' = 1"
    using s [OF pt] s [OF pt'] weight_sum [OF n w] weight_sum [OF n v] by simp_all
  moreover have "normalize (x, y, z) = normalize (x', y', z')"
    using eq unfolding nodes_nth [OF f i] nodes_nth [OF f j] p q w v pt pt' .
  ultimately have "(x, y, z) = (x', y', z')" by (rule normalize_eq_on_plane [rotated])
  then have "face_point (w0, w1, w2) ?face = face_point (v0, v1, v2) ?face"
    by (simp only: pt pt')
  then have "(w0, w1, w2) = (v0, v1, v2)" by (rule face_point_inj [OF face])
  then have "weight_of ?n (a, b) = weight_of ?n (a', b')" by (simp only: w v)
  then have "(a, b) = (a', b')" by (rule weight_of_inj [OF n])
  then have "lattice ?n ! i = lattice ?n ! j" by (simp only: p q)
  then have "i = j" using i j distinct_lattice [of ?n] by (simp add: nth_eq_iff_index_eq)
  with ne show False by simp
qed

text \<open>
  Claim C8 as amended. The points are emitted face by face, \<open>len(weights)\<close> per face, and
  nothing merges them. For every subdivision level, two distinct indices within the block
  of one face hold different positions, while a position shared between faces is stored
  once per face: the vertex \<open>(0, 0, 1)\<close> is the last point of face 0 and the last point of
  face 1.
\<close>

theorem nodes_distinct_within_face:
  "(f < 8 \<and> i < length (fst (Sierpinsky N)) \<and> j < length (fst (Sierpinsky N)) \<and> i \<noteq> j \<longrightarrow>
      nodes N ! (f * length (fst (Sierpinsky N)) + i)
        \<noteq> nodes N ! (f * length (fst (Sierpinsky N)) + j))
   \<and> nodes N ! (length (fst (Sierpinsky N)) - 1) = (0, 0, 1)
   \<and> nodes N ! (2 * length (fst (Sierpinsky N)) - 1) = (0, 0, 1)"
proof -
  have P: "length (fst (Sierpinsky N)) = length (lattice (1 + 2 ^ N))"
    by (simp add: Sierpinsky_closed)
  have pos: "0 < length (lattice (1 + 2 ^ N))" by (simp add: length_lattice)
  have e: "2 * length (lattice (1 + 2 ^ N)) - 1
           = 1 * length (lattice (1 + 2 ^ N)) + (length (lattice (1 + 2 ^ N)) - 1)"
    using pos by simp
  show ?thesis
    unfolding P
    using within_face_distinct [where f = f and N = N and i = i and j = j]
      shared_vertex [where f = 0 and N = N] shared_vertex [where f = 1 and N = N, folded e]
    by simp
qed

theorem nodes_distinct_within_face_witness:
  "(0::nat) < 8 \<and> 0 < length (fst (Sierpinsky 0)) \<and> 1 < length (fst (Sierpinsky 0))
   \<and> (0::nat) \<noteq> 1
   \<and> nodes 0 ! (0 * length (fst (Sierpinsky 0)) + 0) \<noteq> nodes 0 ! (0 * length (fst (Sierpinsky 0)) + 1)
   \<and> nodes 0 ! (length (fst (Sierpinsky 0)) - 1) = (0, 0, 1)
   \<and> nodes 0 ! (2 * length (fst (Sierpinsky 0)) - 1) = (0, 0, 1)"
proof -
  have l: "length (fst (Sierpinsky 0)) = 3" by (simp add: length_weights)
  show ?thesis
    using nodes_distinct_within_face [of 0 0 0 1] by (simp add: l)
qed

end
